theory Spec2Isabelle
  imports Main
begin

section \<open>Data model\<close>

text \<open>
  The pipeline of \<^verbatim>\<open>src/airflow/dags/runner_nutrition_dag.py\<close>: \<^verbatim>\<open>extract_youtube\<close>
  (watermark read, search, keyword filter, deduplication) and \<^verbatim>\<open>load_bronze\<close>
  (ledger check, MERGE into the raw table, ledger insert, commit).

  A Python string is a \<open>string\<close>; each element stands for one character of the Python
  \<^verbatim>\<open>str\<close>. A timestamp is a number of seconds.
\<close>

type_synonym timestamp = int

text \<open>
  The dictionary that \<^verbatim>\<open>extract_youtube\<close> appends to \<^verbatim>\<open>all_videos\<close>, and a row of
  \<^verbatim>\<open>raw_youtube_videos\<close>: the same eight columns.
\<close>

record video =
  video_id :: string
  title :: string
  description :: string
  channel_title :: string
  published_at :: string
  url :: string
  mentioned_foods :: string
  year :: int

text \<open>A row of \<^verbatim>\<open>stg_processed_videos\<close>, as \<^verbatim>\<open>load_bronze\<close> writes it.\<close>

record processed_row =
  p_video_id :: string
  processing_status :: string

text \<open>The two tables of the warehouse that the core reads and writes.\<close>

record db =
  raw_youtube_videos :: "video list"
  stg_processed_videos :: "processed_row list"

text \<open>
  An item of the search response. A key that the response does not carry is \<open>None\<close>:
  \<^verbatim>\<open>item['id']['videoId']\<close>, \<^verbatim>\<open>item['snippet']['title']\<close>, and so on.
\<close>

record item =
  item_videoId :: "string option"
  item_title :: "string option"
  item_description :: "string option"
  item_channelTitle :: "string option"
  item_publishedAt :: "string option"

text \<open>The statements that the code sends to the warehouse, with their bound parameters.\<close>

datatype stmt =
    Select_watermark
  | Select_processed "string list"
  | Merge_raw video
  | Insert_processed string

text \<open>The calls on the warehouse connection, in the order a run makes them.\<close>

datatype event = Connect | Execute stmt | Commit | Close

datatype error =
    StorageError event
  | ClientError
  | ApiError string
  | KeyError string
  | ValueError string

text \<open>
  What the code takes from its surroundings:
  \<^item> \<open>now\<close>: the warehouse's \<^verbatim>\<open>CURRENT_TIMESTAMP()\<close>;
  \<^item> \<open>autocommit\<close>: the mode of the warehouse session. \<^verbatim>\<open>get_snowflake_connection\<close> calls
    \<^verbatim>\<open>snowflake.connector.connect\<close> without an \<^verbatim>\<open>autocommit\<close> argument, so the mode is the one
    the account or user is configured with; in autocommit mode every statement is committed as
    it is executed;
  \<^item> \<open>raises\<close>: which calls on the connection raise;
  \<^item> \<open>to_timestamp\<close>: how the warehouse reads the text bound to \<^verbatim>\<open>published_at\<close> as a
    timestamp;
  \<^item> \<open>build_raises\<close>: whether constructing the search client raises;
  \<^item> \<open>search\<close>: the search request for a watermark and a topic query: an exception, or the
    \<^verbatim>\<open>items\<close> of the response (\<open>None\<close> when the response has no such key);
  \<^item> \<open>py_int\<close>: Python's \<^verbatim>\<open>int\<close> on a string, \<open>None\<close> for \<^verbatim>\<open>ValueError\<close>;
  \<^item> \<open>str_lower\<close>: Python's \<^verbatim>\<open>str.lower\<close>, which lowers every cased character of a string and
    may change its length.
\<close>

record env =
  now :: timestamp
  autocommit :: bool
  raises :: "event \<Rightarrow> bool"
  to_timestamp :: "string \<Rightarrow> timestamp"
  build_raises :: bool
  search :: "timestamp \<Rightarrow> string \<Rightarrow> error + item list option"
  py_int :: "string \<Rightarrow> int option"
  str_lower :: "string \<Rightarrow> string"

section \<open>Configuration\<close>

definition FOOD_KEYWORDS :: "string list" where
  "FOOD_KEYWORDS =
    [''carb'', ''carbs'', ''carbohydrate'', ''protein'', ''fat'', ''banana'',
     ''oatmeal'', ''pasta'', ''rice'', ''egg'', ''chicken'', ''gel'', ''energy gel'',
     ''bar'', ''protein bar'', ''coffee'', ''sports drink'', ''hydration'',
     ''yogurt'', ''milk'', ''sweet potato'', ''quinoa'', ''salmon'', ''avocado'',
     ''nuts'', ''berries'', ''bread'', ''bagel'', ''smoothie'', ''fruit'']"

definition SEARCH_QUERIES :: "string list" where
  "SEARCH_QUERIES =
    [''runner nutrition food'', ''marathon nutrition'', ''running diet'',
     ''ultramarathon fueling'', ''what runners eat'']"

section \<open>Python string operations\<close>

text \<open>
  What \<^verbatim>\<open>str.lower\<close> does on a string of ASCII characters: the letters A to Z are lowered,
  every other character is left as it is. It stands for \<open>str_lower\<close> in the example run
  only, whose strings are ASCII.
\<close>

definition ascii_lower_char :: "char \<Rightarrow> char" where
  "ascii_lower_char c =
     (case map_of (zip ''ABCDEFGHIJKLMNOPQRSTUVWXYZ'' ''abcdefghijklmnopqrstuvwxyz'') c of
        None \<Rightarrow> c
      | Some l \<Rightarrow> l)"

definition ascii_lower :: "string \<Rightarrow> string" where
  "ascii_lower s = map ascii_lower_char s"

fun starts_with :: "'a list \<Rightarrow> 'a list \<Rightarrow> bool" where
  "starts_with [] ys = True"
| "starts_with (x # xs) [] = False"
| "starts_with (x # xs) (y # ys) = (x = y \<and> starts_with xs ys)"

text \<open>\<^verbatim>\<open>f in text\<close> on strings: \<open>f\<close> occurs in \<open>text\<close> as a contiguous run.\<close>

fun contains :: "'a list \<Rightarrow> 'a list \<Rightarrow> bool" where
  "contains f [] = (f = [])"
| "contains f (c # cs) = (starts_with f (c # cs) \<or> contains f cs)"

text \<open>\<^verbatim>\<open>sep.join(xs)\<close>.\<close>

fun join :: "string \<Rightarrow> string list \<Rightarrow> string" where
  "join sep [] = []"
| "join sep [x] = x"
| "join sep (x # y # ys) = x @ sep @ join sep (y # ys)"

text \<open>\<^verbatim>\<open>s.replace('T', ' ')\<close>.\<close>

definition replace_T :: "string \<Rightarrow> string" where
  "replace_T s = map (\<lambda>c. if c = CHR ''T'' then CHR '' '' else c) s"

section \<open>Deduplicator\<close>

text \<open>
  The loop at the end of \<^verbatim>\<open>extract_youtube\<close>: \<open>seen\<close> is the set of identifiers met so far,
  \<open>unique_videos\<close> the list built so far, and a video is appended when its identifier is not
  in \<open>seen\<close>.
\<close>

fun dedup_loop :: "string set \<Rightarrow> video list \<Rightarrow> video list \<Rightarrow> video list" where
  "dedup_loop seen unique_videos [] = unique_videos"
| "dedup_loop seen unique_videos (v # all_videos) =
     (if video_id v \<notin> seen
      then dedup_loop (insert (video_id v) seen) (unique_videos @ [v]) all_videos
      else dedup_loop seen unique_videos all_videos)"

definition deduplicate :: "video list \<Rightarrow> video list" where
  "deduplicate all_videos = dedup_loop {} [] all_videos"

section \<open>Warehouse session\<close>

text \<open>
  A session holds the committed tables (what a later connection sees), the tables as this
  session sees them, and the calls made so far. A call is logged when it is attempted.
\<close>

record session =
  committed :: db
  view :: db
  log :: "event list"

text \<open>
  \<^verbatim>\<open>MERGE INTO raw_youtube_videos ... ON target.video_id = source.video_id
  WHEN NOT MATCHED THEN INSERT\<close>: the row is appended when no row of the table has its
  identifier, and nothing happens otherwise.
  \<^verbatim>\<open>INSERT INTO stg_processed_videos (video_id, processing_status) VALUES (%s, 'SUCCESS')\<close>
  appends a ledger row. The two SELECT statements change nothing.
\<close>

fun apply_stmt :: "stmt \<Rightarrow> db \<Rightarrow> db" where
  "apply_stmt (Merge_raw r) d =
     (if video_id r \<in> set (map video_id (raw_youtube_videos d)) then d
      else d\<lparr>raw_youtube_videos := raw_youtube_videos d @ [r]\<rparr>)"
| "apply_stmt (Insert_processed vid) d =
     d\<lparr>stg_processed_videos :=
          stg_processed_videos d @ [\<lparr>p_video_id = vid, processing_status = ''SUCCESS''\<rparr>]\<rparr>"
| "apply_stmt Select_watermark d = d"
| "apply_stmt (Select_processed ids) d = d"

definition get_snowflake_connection :: "env \<Rightarrow> db \<Rightarrow> error + session" where
  "get_snowflake_connection w d =
     (if raises w Connect then Inl (StorageError Connect)
      else Inr \<lparr>committed = d, view = d, log = [Connect]\<rparr>)"

text \<open>
  \<^verbatim>\<open>cursor.execute\<close>: the statement raises, or it takes effect in the session's view; in
  autocommit mode it is committed at once.
\<close>

definition execute :: "env \<Rightarrow> stmt \<Rightarrow> session \<Rightarrow> error option \<times> session" where
  "execute w st s =
     (let s1 = s\<lparr>log := log s @ [Execute st]\<rparr> in
      if raises w (Execute st) then (Some (StorageError (Execute st)), s1)
      else
        (let v = apply_stmt st (view s1) in
         (None, s1\<lparr>view := v, committed := (if autocommit w then v else committed s1)\<rparr>)))"

text \<open>\<^verbatim>\<open>conn.commit()\<close>.\<close>

definition commit :: "env \<Rightarrow> session \<Rightarrow> error option \<times> session" where
  "commit w s =
     (let s1 = s\<lparr>log := log s @ [Commit]\<rparr> in
      if raises w Commit then (Some (StorageError Commit), s1)
      else (None, s1\<lparr>committed := view s1\<rparr>))"

text \<open>\<^verbatim>\<open>conn.close()\<close>: what was not committed is dropped with the session.\<close>

definition close :: "session \<Rightarrow> session" where
  "close s = s\<lparr>view := committed s, log := log s @ [Close]\<rparr>"

section \<open>Watermark Reader\<close>

text \<open>\<^verbatim>\<open>MAX\<close> over a column: NULL on no rows.\<close>

fun sql_max :: "timestamp list \<Rightarrow> timestamp option" where
  "sql_max [] = None"
| "sql_max (x # xs) = Some (fold max xs x)"

text \<open>
  \<^verbatim>\<open>SELECT COALESCE(MAX(published_at), DATEADD(day, -7, CURRENT_TIMESTAMP()))
  FROM raw_youtube_videos\<close>, then \<^verbatim>\<open>fetchone()[0]\<close>.
\<close>

definition fetch_watermark :: "env \<Rightarrow> session \<Rightarrow> timestamp" where
  "fetch_watermark w s =
     (case sql_max (map (\<lambda>r. to_timestamp w (published_at r)) (raw_youtube_videos (view s))) of
        None \<Rightarrow> now w - 7 * 86400
      | Some t \<Rightarrow> t)"

definition read_watermark :: "env \<Rightarrow> db \<Rightarrow> error + timestamp" where
  "read_watermark w d =
     (case get_snowflake_connection w d of
        Inl e \<Rightarrow> Inl e
      | Inr conn \<Rightarrow>
          (case execute w Select_watermark conn of
             (Some e, s1) \<Rightarrow> Inl e
           | (None, s1) \<Rightarrow> Inr (fetch_watermark w s1)))"

section \<open>Source Fetcher\<close>

text \<open>
  The body of the loop over \<^verbatim>\<open>response.get('items', [])\<close> for one item: an exception, no
  append (\<open>Inr None\<close>), or the dictionary appended to \<^verbatim>\<open>all_videos\<close>. The fields are read in
  the order the code reads them.
\<close>

definition text_blob :: "(string \<Rightarrow> string) \<Rightarrow> string \<Rightarrow> string \<Rightarrow> string" where
  "text_blob lo t d = lo t @ '' '' @ lo d"

definition matched_keywords :: "string \<Rightarrow> string list" where
  "matched_keywords text = filter (\<lambda>f. contains f text) FOOD_KEYWORDS"

definition candidate_of ::
  "(string \<Rightarrow> string) \<Rightarrow> (string \<Rightarrow> int option) \<Rightarrow> item \<Rightarrow> error + video option" where
  "candidate_of lo to_int it =
     (case item_title it of
        None \<Rightarrow> Inl (KeyError ''title'')
      | Some t \<Rightarrow>
          (let d = (case item_description it of None \<Rightarrow> [] | Some x \<Rightarrow> x);
               foods = matched_keywords (text_blob lo t d)
           in if foods = [] then Inr None
              else
                (case item_videoId it of
                   None \<Rightarrow> Inl (KeyError ''videoId'')
                 | Some vid \<Rightarrow>
                     (case item_channelTitle it of
                        None \<Rightarrow> Inl (KeyError ''channelTitle'')
                      | Some ch \<Rightarrow>
                          (case item_publishedAt it of
                             None \<Rightarrow> Inl (KeyError ''publishedAt'')
                           | Some p \<Rightarrow>
                               (case to_int (take 4 p) of
                                  None \<Rightarrow> Inl (ValueError (take 4 p))
                                | Some y \<Rightarrow>
                                    Inr (Some
                                      \<lparr>video_id = vid,
                                       title = t,
                                       description = d,
                                       channel_title = ch,
                                       published_at = replace_T (take 19 p),
                                       url = ''https://youtube.com/watch?v='' @ vid,
                                       mentioned_foods = join '','' foods,
                                       year = y\<rparr>)))))))"

text \<open>
  The inner loop: \<^verbatim>\<open>all_videos\<close> keeps what was appended before an item raised.
\<close>

fun process_items ::
  "(string \<Rightarrow> string) \<Rightarrow> (string \<Rightarrow> int option) \<Rightarrow> item list \<Rightarrow> video list \<Rightarrow>
     error option \<times> video list" where
  "process_items lo to_int [] all_videos = (None, all_videos)"
| "process_items lo to_int (it # its) all_videos =
     (case candidate_of lo to_int it of
        Inl e \<Rightarrow> (Some e, all_videos)
      | Inr None \<Rightarrow> process_items lo to_int its all_videos
      | Inr (Some c) \<Rightarrow> process_items lo to_int its (all_videos @ [c]))"

text \<open>
  One pass of \<^verbatim>\<open>for query in SEARCH_QUERIES\<close> with its \<^verbatim>\<open>try ... except Exception\<close>: the state
  is \<^verbatim>\<open>all_videos\<close> and the queries logged by \<^verbatim>\<open>logging.error\<close>.
\<close>

definition fetch_query :: "env \<Rightarrow> timestamp \<Rightarrow> string \<Rightarrow> video list \<times> string list \<Rightarrow> video list \<times> string list" where
  "fetch_query w published_after query st =
     (case search w published_after query of
        Inl e \<Rightarrow> (fst st, snd st @ [query])
      | Inr response \<Rightarrow>
          (case process_items (str_lower w) (py_int w) (case response of None \<Rightarrow> [] | Some its \<Rightarrow> its) (fst st) of
             (Some e, all_videos) \<Rightarrow> (all_videos, snd st @ [query])
           | (None, all_videos) \<Rightarrow> (all_videos, snd st)))"

fun fetch_all :: "env \<Rightarrow> timestamp \<Rightarrow> string list \<Rightarrow> video list \<times> string list \<Rightarrow> video list \<times> string list" where
  "fetch_all w published_after [] st = st"
| "fetch_all w published_after (query # queries) st =
     fetch_all w published_after queries (fetch_query w published_after query st)"

text \<open>
  \<^verbatim>\<open>extract_youtube\<close>: the watermark, the search client, the loop over the queries and the
  deduplication. The result is the value pushed under \<^verbatim>\<open>videos\<close>, with the queries that
  were logged as failed; the function's return value is the length of the list.
\<close>

definition extract_youtube :: "env \<Rightarrow> db \<Rightarrow> error + video list \<times> string list" where
  "extract_youtube w d =
     (case read_watermark w d of
        Inl e \<Rightarrow> Inl e
      | Inr last_date \<Rightarrow>
          if build_raises w then Inl ClientError
          else
            (let r = fetch_all w last_date SEARCH_QUERIES ([], [])
             in Inr (deduplicate (fst r), snd r)))"

section \<open>Idempotent Loader\<close>

text \<open>The values bound to the INSERT of the MERGE statement.\<close>

definition raw_values :: "video \<Rightarrow> video" where
  "raw_values v =
     \<lparr>video_id = video_id v,
      title = take 500 (title v),
      description = take 5000 (description v),
      channel_title = take 200 (channel_title v),
      published_at = published_at v,
      url = url v,
      mentioned_foods = mentioned_foods v,
      year = year v\<rparr>"

text \<open>
  \<^verbatim>\<open>SELECT video_id FROM stg_processed_videos WHERE video_id IN (...)\<close> and
  \<^verbatim>\<open>{row[0] for row in cursor.fetchall()}\<close>.
\<close>

definition fetch_existing_ids :: "string list \<Rightarrow> session \<Rightarrow> string set" where
  "fetch_existing_ids video_ids s =
     set (filter (\<lambda>i. i \<in> set video_ids) (map p_video_id (stg_processed_videos (view s))))"

text \<open>\<^verbatim>\<open>for video in new_videos\<close>: the loop stops at the first statement that raises.\<close>

fun load_loop :: "env \<Rightarrow> video list \<Rightarrow> session \<Rightarrow> error option \<times> session" where
  "load_loop w [] s = (None, s)"
| "load_loop w (video # new_videos) s =
     (case execute w (Merge_raw (raw_values video)) s of
        (Some e, s1) \<Rightarrow> (Some e, s1)
      | (None, s1) \<Rightarrow>
          (case execute w (Insert_processed (video_id video)) s1 of
             (Some e, s2) \<Rightarrow> (Some e, s2)
           | (None, s2) \<Rightarrow> load_loop w new_videos s2))"

text \<open>
  \<^verbatim>\<open>load_bronze\<close>. The argument is the value pulled from \<^verbatim>\<open>xcom\<close> (\<open>None\<close> when nothing was
  pushed). The result is the return value or the exception, the committed tables after the
  call, and the calls made on the warehouse.
\<close>

definition load_bronze :: "env \<Rightarrow> video list option \<Rightarrow> db \<Rightarrow> (error + nat) \<times> db \<times> event list" where
  "load_bronze w videos d =
     (case videos of
        None \<Rightarrow> (Inr 0, d, [])
      | Some [] \<Rightarrow> (Inr 0, d, [])
      | Some vs \<Rightarrow>
          (case get_snowflake_connection w d of
             Inl e \<Rightarrow> (Inl e, d, [Connect])
           | Inr conn \<Rightarrow>
               (let video_ids = map video_id vs in
                case execute w (Select_processed video_ids) conn of
                  (Some e, s1) \<Rightarrow> (Inl e, committed s1, log s1)
                | (None, s1) \<Rightarrow>
                    (let existing_ids = fetch_existing_ids video_ids s1;
                         new_videos = filter (\<lambda>v. video_id v \<notin> existing_ids) vs
                     in if new_videos = []
                        then (let s2 = close s1 in (Inr 0, committed s2, log s2))
                        else
                          (case load_loop w new_videos s1 of
                             (Some e, s2) \<Rightarrow> (Inl e, committed s2, log s2)
                           | (None, s2) \<Rightarrow>
                               (case commit w s2 of
                                  (Some e, s3) \<Rightarrow> (Inl e, committed s3, log s3)
                                | (None, s3) \<Rightarrow>
                                    (let s4 = close s3
                                     in (Inr (length new_videos), committed s4, log s4))))))))"

text \<open>Successive runs of the loader, each on the tables the one before left committed.\<close>

fun load_runs :: "env \<Rightarrow> video list option list \<Rightarrow> db \<Rightarrow> db" where
  "load_runs w [] d = d"
| "load_runs w (videos # batches) d = load_runs w batches (fst (snd (load_bronze w videos d)))"

section \<open>Notions used in the statements\<close>

text \<open>The batch that \<^verbatim>\<open>load_bronze\<close> works on: nothing when no value was pushed.\<close>

definition batch_of :: "video list option \<Rightarrow> video list" where
  "batch_of videos = (case videos of None \<Rightarrow> [] | Some vs \<Rightarrow> vs)"

text \<open>The identifiers in the ledger, and those whose row has the status SUCCESS.\<close>

definition ledger_ids :: "db \<Rightarrow> string list" where
  "ledger_ids d = map p_video_id (stg_processed_videos d)"

definition success_ids :: "db \<Rightarrow> string list" where
  "success_ids d =
     map p_video_id (filter (\<lambda>p. processing_status p = ''SUCCESS'') (stg_processed_videos d))"

definition success_row :: "string \<Rightarrow> processed_row" where
  "success_row vid = \<lparr>p_video_id = vid, processing_status = ''SUCCESS''\<rparr>"

text \<open>The rows of the raw table with a given identifier.\<close>

definition rows_with :: "string \<Rightarrow> db \<Rightarrow> video list" where
  "rows_with i d = filter (\<lambda>r. video_id r = i) (raw_youtube_videos d)"

text \<open>The candidates of a batch whose identifier is not in the ledger.\<close>

definition new_videos_of :: "db \<Rightarrow> video list \<Rightarrow> video list" where
  "new_videos_of d vs = filter (\<lambda>v. video_id v \<notin> set (ledger_ids d)) vs"

text \<open>The write statements of the loop, in order: a MERGE and an INSERT for each video.\<close>

definition writes_of :: "video list \<Rightarrow> stmt list" where
  "writes_of vs =
     concat (map (\<lambda>v. [Merge_raw (raw_values v), Insert_processed (video_id v)]) vs)"

text \<open>Statements executed one after the other until one raises.\<close>

fun run_stmts :: "env \<Rightarrow> stmt list \<Rightarrow> session \<Rightarrow> error option \<times> session" where
  "run_stmts w [] s = (None, s)"
| "run_stmts w (st # sts) s =
     (case execute w st s of
        (Some e, s1) \<Rightarrow> (Some e, s1)
      | (None, s1) \<Rightarrow> run_stmts w sts s1)"

text \<open>The statements before the first one that raises.\<close>

definition ok_prefix :: "env \<Rightarrow> stmt list \<Rightarrow> stmt list" where
  "ok_prefix w sts = takeWhile (\<lambda>st. \<not> raises w (Execute st)) sts"

fun inserted_ids :: "stmt list \<Rightarrow> string list" where
  "inserted_ids [] = []"
| "inserted_ids (Insert_processed vid # sts) = vid # inserted_ids sts"
| "inserted_ids (st # sts) = inserted_ids sts"

fun merged_rows :: "stmt list \<Rightarrow> video list" where
  "merged_rows [] = []"
| "merged_rows (Merge_raw r # sts) = r # merged_rows sts"
| "merged_rows (st # sts) = merged_rows sts"

definition merge_row :: "video \<Rightarrow> video list \<Rightarrow> video list" where
  "merge_row r rows = (if video_id r \<in> set (map video_id rows) then rows else rows @ [r])"

text \<open>The parts of the loader's result.\<close>

definition persisted :: "(error + nat) \<times> db \<times> event list \<Rightarrow> db" where
  "persisted out = fst (snd out)"

definition trace :: "(error + nat) \<times> db \<times> event list \<Rightarrow> event list" where
  "trace out = snd (snd out)"

text \<open>
  The loader on a non-empty batch, case by case: which call raises first, what is committed
  then, and which calls were made.
\<close>

definition load_outcome :: "env \<Rightarrow> video list \<Rightarrow> db \<Rightarrow> (error + nat) \<times> db \<times> event list" where
  "load_outcome w vs d =
     (let sel = Select_processed (map video_id vs);
          new = new_videos_of d vs;
          ws = writes_of new;
          p = ok_prefix w ws;
          pre = [Connect, Execute sel] @ map Execute (take (Suc (length p)) ws)
      in if raises w Connect then (Inl (StorageError Connect), d, [Connect])
         else if raises w (Execute sel)
           then (Inl (StorageError (Execute sel)), d, [Connect, Execute sel])
         else if new = [] then (Inr 0, d, [Connect, Execute sel, Close])
         else if p \<noteq> ws
           then (Inl (StorageError (Execute (ws ! length p))),
                 (if autocommit w then fold apply_stmt p d else d), pre)
         else if raises w Commit
           then (Inl (StorageError Commit),
                 (if autocommit w then fold apply_stmt ws d else d), pre @ [Commit])
         else (Inr (length new), fold apply_stmt ws d, pre @ [Commit, Close]))"

text \<open>
  For the Source Fetcher: the items of a response, the candidates of the items that pass
  the keyword filter, a query whose request raises, a query whose response is processed
  without an exception, and the candidates such a query contributes.
\<close>

definition response_items :: "item list option \<Rightarrow> item list" where
  "response_items response = (case response of None \<Rightarrow> [] | Some its \<Rightarrow> its)"

definition kept_of ::
  "(string \<Rightarrow> string) \<Rightarrow> (string \<Rightarrow> int option) \<Rightarrow> item list \<Rightarrow> video list" where
  "kept_of lo to_int its =
     List.map_filter
       (\<lambda>it. case candidate_of lo to_int it of Inr (Some c) \<Rightarrow> Some c | _ \<Rightarrow> None) its"

definition query_fails :: "env \<Rightarrow> timestamp \<Rightarrow> string \<Rightarrow> bool" where
  "query_fails w t q = isl (search w t q)"

definition query_succeeds :: "env \<Rightarrow> timestamp \<Rightarrow> string \<Rightarrow> bool" where
  "query_succeeds w t q =
     (case search w t q of
        Inl e \<Rightarrow> False
      | Inr response \<Rightarrow>
          list_all (\<lambda>it. \<not> isl (candidate_of (str_lower w) (py_int w) it)) (response_items response))"

definition query_items :: "env \<Rightarrow> timestamp \<Rightarrow> string \<Rightarrow> video list" where
  "query_items w t q =
     (case search w t q of
        Inl e \<Rightarrow> []
      | Inr response \<Rightarrow> kept_of (str_lower w) (py_int w) (response_items response))"

text \<open>
  An item whose processing does not raise; a query whose pass through the loop raises, at
  the request or at an item; and what a query's pass appends to \<^verbatim>\<open>all_videos\<close>: the
  candidates of the items before the first one that raises.
\<close>

definition item_ok :: "(string \<Rightarrow> string) \<Rightarrow> (string \<Rightarrow> int option) \<Rightarrow> item \<Rightarrow> bool" where
  "item_ok lo to_int it = (\<not> isl (candidate_of lo to_int it))"

definition query_raises :: "env \<Rightarrow> timestamp \<Rightarrow> string \<Rightarrow> bool" where
  "query_raises w t q =
     (case search w t q of
        Inl e \<Rightarrow> True
      | Inr response \<Rightarrow> \<not> list_all (item_ok (str_lower w) (py_int w)) (response_items response))"

definition query_yield :: "env \<Rightarrow> timestamp \<Rightarrow> string \<Rightarrow> video list" where
  "query_yield w t q =
     (case search w t q of
        Inl e \<Rightarrow> []
      | Inr response \<Rightarrow>
          kept_of (str_lower w) (py_int w) (takeWhile (item_ok (str_lower w) (py_int w)) (response_items response)))"



section \<open>An example run\<close>

text \<open>
  Two of the five topic queries raise, one response has no items, and the other two return
  three items with a keyword (one of them twice) and one without.
\<close>

definition item_gel :: item where
  "item_gel =
     \<lparr>item_videoId = Some ''abc123'', item_title = Some ''Marathon Gel Review'',
      item_description = Some ''Race day fuel'', item_channelTitle = Some ''RunnerTV'',
      item_publishedAt = Some ''2024-03-02T10:15:00Z''\<rparr>"

definition item_banana :: item where
  "item_banana =
     \<lparr>item_videoId = Some ''xyz789'', item_title = Some ''Bananas before a long run'',
      item_description = None, item_channelTitle = Some ''Coach K'',
      item_publishedAt = Some ''2024-03-05T08:00:00Z''\<rparr>"

definition item_shoes :: item where
  "item_shoes =
     \<lparr>item_videoId = Some ''shoe42'', item_title = Some ''My trail shoes'',
      item_description = Some ''Gear only'', item_channelTitle = Some ''RunnerTV'',
      item_publishedAt = Some ''2024-03-06T09:30:00Z''\<rparr>"

definition item_car_b :: item where
  "item_car_b =
     \<lparr>item_videoId = Some ''car001'', item_title = Some ''car'',
      item_description = Some ''b'', item_channelTitle = Some ''RunnerTV'',
      item_publishedAt = Some ''2024-03-07T09:30:00Z''\<rparr>"

definition video_gel :: video where
  "video_gel =
     \<lparr>video_id = ''abc123'', title = ''Marathon Gel Review'', description = ''Race day fuel'',
      channel_title = ''RunnerTV'', published_at = ''2024-03-02 10:15:00'',
      url = ''https://youtube.com/watch?v=abc123'', mentioned_foods = ''gel'', year = 2024\<rparr>"

definition video_banana :: video where
  "video_banana =
     \<lparr>video_id = ''xyz789'', title = ''Bananas before a long run'', description = [],
      channel_title = ''Coach K'', published_at = ''2024-03-05 08:00:00'',
      url = ''https://youtube.com/watch?v=xyz789'', mentioned_foods = ''banana'', year = 2024\<rparr>"

definition video_long :: video where
  "video_long =
     \<lparr>video_id = ''long600'', title = replicate 600 (CHR ''x''), description = ''pasta'',
      channel_title = ''RunnerTV'', published_at = ''2024-03-08 07:00:00'',
      url = ''https://youtube.com/watch?v=long600'', mentioned_foods = ''pasta'', year = 2024\<rparr>"

definition year_2024 :: "string \<Rightarrow> int option" where
  "year_2024 s = (if s = ''2024'' then Some 2024 else None)"

definition search_example :: "timestamp \<Rightarrow> string \<Rightarrow> error + item list option" where
  "search_example t q =
     (if q = ''marathon nutrition'' then Inr (Some [item_gel, item_shoes])
      else if q = ''running diet'' then Inr (Some [item_banana, item_gel])
      else if q = ''what runners eat'' then Inr None
      else Inl (ApiError ''quotaExceeded''))"

definition timestamp_example :: "string \<Rightarrow> timestamp" where
  "timestamp_example s =
     (if s = ''2024-03-02 10:15:00'' then 1709374500
      else if s = ''2024-03-05 08:00:00'' then 1709625600
      else 0)"

definition env_ok :: env where
  "env_ok =
     \<lparr>now = 1710000000, autocommit = False, raises = (\<lambda>e. False),
      to_timestamp = timestamp_example, build_raises = False,
      search = search_example, py_int = year_2024,
      str_lower = ascii_lower\<rparr>"

text \<open>The ledger INSERT for the second video raises, without and with autocommit.\<close>

definition env_write_fails :: env where
  "env_write_fails = env_ok\<lparr>raises := (\<lambda>e. e = Execute (Insert_processed ''xyz789''))\<rparr>"

definition env_autocommit_write_fails :: env where
  "env_autocommit_write_fails = env_write_fails\<lparr>autocommit := True\<rparr>"

definition db_empty :: db where
  "db_empty = \<lparr>raw_youtube_videos = [], stg_processed_videos = []\<rparr>"

definition db_loaded :: db where
  "db_loaded =
     \<lparr>raw_youtube_videos = [video_gel, video_banana],
      stg_processed_videos = [success_row ''abc123'', success_row ''xyz789'']\<rparr>"

definition db_gel :: db where
  "db_gel =
     \<lparr>raw_youtube_videos = [video_gel], stg_processed_videos = [success_row ''abc123'']\<rparr>"

text \<open>
  A response whose second item has no title: the pass for that query raises after the first
  item was appended.
\<close>

definition item_untitled :: item where
  "item_untitled =
     \<lparr>item_videoId = Some ''bad000'', item_title = None,
      item_description = Some ''pasta'', item_channelTitle = Some ''RunnerTV'',
      item_publishedAt = Some ''2024-03-09T09:30:00Z''\<rparr>"

definition search_malformed :: "timestamp \<Rightarrow> string \<Rightarrow> error + item list option" where
  "search_malformed t q =
     (if q = ''marathon nutrition'' then Inr (Some [item_gel, item_untitled, item_shoes])
      else if q = ''running diet'' then Inr (Some [item_banana])
      else Inl (ApiError ''quotaExceeded''))"

definition env_malformed :: env where
  "env_malformed = env_ok\<lparr>search := search_malformed\<rparr>"



text \<open>The commit raises.\<close>

definition env_commit_fails :: env where
  "env_commit_fails = env_ok\<lparr>raises := (\<lambda>e. e = Commit)\<rparr>"

section \<open>The Deduplicator keeps the first occurrence\<close>

lemma dedup_loop_acc: "dedup_loop seen acc vs = acc @ dedup_loop seen [] vs"
proof (induction vs arbitrary: seen acc)
  case Nil
  show ?case by simp
next
  case (Cons v vs)
  show ?case
    using Cons.IH [of "insert (video_id v) seen" "acc @ [v]"]
          Cons.IH [of "insert (video_id v) seen" "[v]"] Cons.IH [of seen acc]
    by simp
qed

lemma dedup_loop_ids:
  "set (map video_id (dedup_loop seen [] vs)) = set (map video_id vs) - seen"
proof (induction vs arbitrary: seen)
  case Nil
  show ?case by simp
next
  case (Cons v vs)
  show ?case
    using Cons.IH [of "insert (video_id v) seen"] Cons.IH [of seen]
          dedup_loop_acc [of "insert (video_id v) seen" "[v]" vs]
    by auto
qed

lemma dedup_loop_distinct: "distinct (map video_id (dedup_loop seen [] vs))"
proof (induction vs arbitrary: seen)
  case Nil
  show ?case by simp
next
  case (Cons v vs)
  show ?case
    using Cons.IH [of "insert (video_id v) seen"] Cons.IH [of seen]
          dedup_loop_acc [of "insert (video_id v) seen" "[v]" vs]
          dedup_loop_ids [of "insert (video_id v) seen" vs]
    by auto
qed

lemma dedup_loop_find:
  "find (\<lambda>v. video_id v = i) (dedup_loop seen [] vs) =
     (if i \<in> seen then None else find (\<lambda>v. video_id v = i) vs)"
proof (induction vs arbitrary: seen)
  case Nil
  show ?case by simp
next
  case (Cons v vs)
  show ?case
    using Cons.IH [of "insert (video_id v) seen"] Cons.IH [of seen]
          dedup_loop_acc [of "insert (video_id v) seen" "[v]" vs]
    by auto
qed

text \<open>
  C4. For every list of candidate records, the Deduplicator's output has pairwise distinct
  identifiers, has exactly the identifiers of the input, and for every identifier the record
  it holds is the first record of the input with that identifier (\<open>find\<close> returns the first
  match, and \<open>None\<close> on both sides when the identifier does not occur).
\<close>

theorem deduplicate_first_occurrence:
  "distinct (map video_id (deduplicate vs)) \<and>
   set (map video_id (deduplicate vs)) = set (map video_id vs) \<and>
   (\<forall>i. find (\<lambda>v. video_id v = i) (deduplicate vs) = find (\<lambda>v. video_id v = i) vs)"
  using dedup_loop_distinct [of "{}" vs] dedup_loop_ids [of "{}" vs]
        dedup_loop_find [of _ "{}" vs]
  by (simp add: deduplicate_def)

section \<open>The loader, case by case\<close>

lemma load_loop_run: "load_loop w vs s = run_stmts w (writes_of vs) s"
  by (induction vs arbitrary: s) (auto simp: writes_of_def split: prod.splits option.splits)

lemma execute_fail:
  "raises w (Execute st) \<Longrightarrow>
   execute w st s = (Some (StorageError (Execute st)), s\<lparr>log := log s @ [Execute st]\<rparr>)"
  by (simp add: execute_def)

lemma execute_ok:
  "\<not> raises w (Execute st) \<Longrightarrow>
   execute w st s =
     (None, \<lparr>committed = (if autocommit w then apply_stmt st (view s) else committed s),
             view = apply_stmt st (view s), log = log s @ [Execute st]\<rparr>)"
  by (simp add: execute_def Let_def)

lemma run_stmts_result:
  "fst (run_stmts w sts s) =
     (if ok_prefix w sts = sts then None
      else Some (StorageError (Execute (sts ! length (ok_prefix w sts)))))"
proof (induction sts arbitrary: s)
  case Nil show ?case by (simp add: ok_prefix_def)
next
  case (Cons st sts)
  show ?case
  proof (cases "raises w (Execute st)")
    case True then show ?thesis by (simp add: execute_fail ok_prefix_def)
  next
    case False
    then show ?thesis using Cons.IH by (simp add: execute_ok ok_prefix_def)
  qed
qed

lemma run_stmts_view:
  "view (snd (run_stmts w sts s)) = fold apply_stmt (ok_prefix w sts) (view s)"
proof (induction sts arbitrary: s)
  case Nil show ?case by (simp add: ok_prefix_def)
next
  case (Cons st sts)
  show ?case
  proof (cases "raises w (Execute st)")
    case True then show ?thesis by (simp add: execute_fail ok_prefix_def)
  next
    case False
    then show ?thesis using Cons.IH by (simp add: execute_ok ok_prefix_def)
  qed
qed

lemma run_stmts_log:
  "log (snd (run_stmts w sts s)) = log s @ map Execute (take (Suc (length (ok_prefix w sts))) sts)"
proof (induction sts arbitrary: s)
  case Nil show ?case by (simp add: ok_prefix_def)
next
  case (Cons st sts)
  show ?case
  proof (cases "raises w (Execute st)")
    case True then show ?thesis by (simp add: execute_fail ok_prefix_def)
  next
    case False
    then show ?thesis using Cons.IH by (simp add: execute_ok ok_prefix_def)
  qed
qed

lemma run_stmts_committed_manual:
  "\<not> autocommit w \<Longrightarrow> committed (snd (run_stmts w sts s)) = committed s"
proof (induction sts arbitrary: s)
  case Nil show ?case by simp
next
  case (Cons st sts)
  show ?case
  proof (cases "raises w (Execute st)")
    case True then show ?thesis by (simp add: execute_fail)
  next
    case False
    then show ?thesis using Cons.IH Cons.prems by (simp add: execute_ok)
  qed
qed

lemma run_stmts_committed_auto:
  "autocommit w \<Longrightarrow> committed s = view s \<Longrightarrow>
   committed (snd (run_stmts w sts s)) = view (snd (run_stmts w sts s))"
proof (induction sts arbitrary: s)
  case Nil then show ?case by simp
next
  case (Cons st sts)
  show ?case
  proof (cases "raises w (Execute st)")
    case True then show ?thesis using Cons.prems by (simp add: execute_fail)
  next
    case False
    then show ?thesis using Cons.IH Cons.prems by (simp add: execute_ok)
  qed
qed

lemma new_videos_eq:
  "filter (\<lambda>v. video_id v \<notin> set (filter (\<lambda>i. i \<in> set (map video_id vs)) (ledger_ids d))) vs
     = new_videos_of d vs"
  unfolding new_videos_of_def by (rule filter_cong) auto

lemma load_bronze_nonempty:
  assumes "vs \<noteq> []"
  shows "load_bronze w (Some vs) d =
          (case get_snowflake_connection w d of
             Inl e \<Rightarrow> (Inl e, d, [Connect])
           | Inr conn \<Rightarrow>
               (let video_ids = map video_id vs in
                case execute w (Select_processed video_ids) conn of
                  (Some e, s1) \<Rightarrow> (Inl e, committed s1, log s1)
                | (None, s1) \<Rightarrow>
                    (let existing_ids = fetch_existing_ids video_ids s1;
                         new_videos = filter (\<lambda>v. video_id v \<notin> existing_ids) vs
                     in if new_videos = []
                        then (let s2 = close s1 in (Inr 0, committed s2, log s2))
                        else
                          (case load_loop w new_videos s1 of
                             (Some e, s2) \<Rightarrow> (Inl e, committed s2, log s2)
                           | (None, s2) \<Rightarrow>
                               (case commit w s2 of
                                  (Some e, s3) \<Rightarrow> (Inl e, committed s3, log s3)
                                | (None, s3) \<Rightarrow>
                                    (let s4 = close s3
                                     in (Inr (length new_videos), committed s4, log s4)))))))"
proof -
  obtain a l where vs: "vs = a # l" using assms by (cases vs) auto
  show ?thesis unfolding vs load_bronze_def by (simp only: option.case list.case)
qed

lemma load_bronze_outcome:
  assumes "vs \<noteq> []"
  shows "load_bronze w (Some vs) d = load_outcome w vs d"
proof (cases "raises w Connect")
  case True
  then show ?thesis
    by (simp add: load_bronze_nonempty [OF assms] load_outcome_def get_snowflake_connection_def
          Let_def)
next
  case conn: False
  let ?sel = "Select_processed (map video_id vs)"
  let ?c = "\<lparr>committed = d, view = d, log = [Connect]\<rparr>"
  show ?thesis
  proof (cases "raises w (Execute ?sel)")
    case True
    then show ?thesis using conn
      by (simp add: load_bronze_nonempty [OF assms] load_outcome_def
            get_snowflake_connection_def Let_def execute_fail)
  next
    case sel: False
    let ?s1 = "\<lparr>committed = d, view = d, log = [Connect, Execute ?sel]\<rparr>"
    have ex: "execute w ?sel ?c = (None, ?s1)"
      using sel by (simp add: execute_ok)
    have new: "filter (\<lambda>v. video_id v \<notin> fetch_existing_ids (map video_id vs) ?s1) vs
                 = new_videos_of d vs"
      using new_videos_eq [of vs d] by (simp add: fetch_existing_ids_def ledger_ids_def)
    let ?new = "new_videos_of d vs"
    let ?ws = "writes_of ?new"
    obtain r s2 where run: "run_stmts w ?ws ?s1 = (r, s2)" by (cases "run_stmts w ?ws ?s1")
    have r: "r = (if ok_prefix w ?ws = ?ws then None
                  else Some (StorageError (Execute (?ws ! length (ok_prefix w ?ws)))))"
      using run_stmts_result [of w ?ws ?s1] run by simp
    have v: "view s2 = fold apply_stmt (ok_prefix w ?ws) d"
      using run_stmts_view [of w ?ws ?s1] run by simp
    have l: "log s2 = [Connect, Execute ?sel] @ map Execute (take (Suc (length (ok_prefix w ?ws))) ?ws)"
      using run_stmts_log [of w ?ws ?s1] run by simp
    have c: "committed s2 = (if autocommit w then fold apply_stmt (ok_prefix w ?ws) d else d)"
      using run_stmts_committed_manual [of w ?ws ?s1] run_stmts_committed_auto [of w ?s1 ?ws] run v
      by (cases "autocommit w") simp_all
    have lb: "load_bronze w (Some vs) d =
        (if ?new = [] then (Inr 0, d, [Connect, Execute ?sel, Close])
         else (case r of
                 Some e \<Rightarrow> (Inl e, committed s2, log s2)
               | None \<Rightarrow>
                   (case commit w s2 of
                      (Some e, s3) \<Rightarrow> (Inl e, committed s3, log s3)
                    | (None, s3) \<Rightarrow> (Inr (length ?new), committed (close s3), log (close s3)))))"
      using conn ex new run
      by (simp add: load_bronze_nonempty [OF assms] get_snowflake_connection_def Let_def
            load_loop_run close_def split: option.splits prod.splits)
    show ?thesis
      unfolding lb
      using conn sel r v l c
      by (simp add: load_outcome_def Let_def commit_def close_def)
  qed
qed

section \<open>What the write statements do to the tables\<close>

lemma fold_apply_ledger:
  "stg_processed_videos (fold apply_stmt sts d) =
     stg_processed_videos d @ map success_row (inserted_ids sts)"
proof (induction sts arbitrary: d)
  case Nil show ?case by simp
next
  case (Cons st sts)
  show ?case using Cons.IH [of "apply_stmt st d"]
    by (cases st) (simp_all add: success_row_def)
qed

lemma fold_apply_raw:
  "raw_youtube_videos (fold apply_stmt sts d) =
     fold merge_row (merged_rows sts) (raw_youtube_videos d)"
proof (induction sts arbitrary: d)
  case Nil show ?case by simp
next
  case (Cons st sts)
  show ?case using Cons.IH [of "apply_stmt st d"]
    by (cases st) (simp_all add: merge_row_def)
qed

lemma inserted_ids_writes: "inserted_ids (writes_of vs) = map video_id vs"
  by (induction vs) (simp_all add: writes_of_def)

lemma merged_rows_writes: "merged_rows (writes_of vs) = map raw_values vs"
  by (induction vs) (simp_all add: writes_of_def)

lemma merged_rows_set: "set (merged_rows sts) = {r. Merge_raw r \<in> set sts}"
proof (induction sts)
  case Nil show ?case by simp
next
  case (Cons st sts)
  then show ?case by (cases st) auto
qed

lemma video_id_raw_values: "video_id (raw_values v) = video_id v"
  by (simp add: raw_values_def)

lemma merge_rows_unchanged:
  "i \<notin> video_id ` set rs \<Longrightarrow>
   filter (\<lambda>r. video_id r = i) (fold merge_row rs rows) = filter (\<lambda>r. video_id r = i) rows"
proof (induction rs arbitrary: rows)
  case Nil show ?case by simp
next
  case (Cons r rs)
  have "filter (\<lambda>r. video_id r = i) (merge_row r rows) = filter (\<lambda>r. video_id r = i) rows"
    using Cons.prems by (auto simp: merge_row_def)
  then show ?case using Cons.IH [of "merge_row r rows"] Cons.prems by simp
qed

lemma merge_rows_extend:
  "\<exists>added. fold merge_row rs rows = rows @ added \<and> set added \<subseteq> set rs"
proof (induction rs arbitrary: rows)
  case Nil show ?case by simp
next
  case (Cons r rs)
  obtain added where a: "fold merge_row rs (merge_row r rows) = merge_row r rows @ added"
      "set added \<subseteq> set rs"
    using Cons.IH [of "merge_row r rows"] by blast
  show ?case
  proof (cases "video_id r \<in> set (map video_id rows)")
    case True
    then have "fold merge_row (r # rs) rows = rows @ added"
      using a by (simp add: merge_row_def)
    moreover have "set added \<subseteq> set (r # rs)" using a(2) by auto
    ultimately show ?thesis by blast
  next
    case False
    then have "fold merge_row (r # rs) rows = rows @ (r # added)"
      using a by (simp add: merge_row_def)
    moreover have "set (r # added) \<subseteq> set (r # rs)" using a(2) by auto
    ultimately show ?thesis by blast
  qed
qed

lemma merge_rows_fresh:
  "distinct (map video_id rs) \<Longrightarrow> video_id ` set rs \<inter> video_id ` set rows = {} \<Longrightarrow>
   fold merge_row rs rows = rows @ rs"
proof (induction rs arbitrary: rows)
  case Nil show ?case by simp
next
  case (Cons r rs)
  have m: "merge_row r rows = rows @ [r]"
    using Cons.prems(2) by (auto simp: merge_row_def)
  have "video_id ` set rs \<inter> video_id ` set (rows @ [r]) = {}"
    using Cons.prems by auto
  then show ?case using Cons.IH [of "rows @ [r]"] Cons.prems(1) m by simp
qed

lemma merge_rows_distinct:
  "distinct (map video_id rows) \<Longrightarrow> distinct (map video_id (fold merge_row rs rows))"
proof (induction rs arbitrary: rows)
  case Nil then show ?case by simp
next
  case (Cons r rs)
  have "distinct (map video_id (merge_row r rows))"
    using Cons.prems by (auto simp: merge_row_def)
  then show ?case using Cons.IH [of "merge_row r rows"] by simp
qed

lemma ok_prefix_subset: "set (ok_prefix w sts) \<subseteq> set sts"
  by (auto simp: ok_prefix_def dest: set_takeWhileD)

section \<open>Properties of the Idempotent Loader\<close>

lemma load_bronze_empty:
  "batch_of videos = [] \<Longrightarrow> load_bronze w videos d = (Inr 0, d, [])"
  by (cases videos) (simp_all add: batch_of_def load_bronze_def)

lemma load_bronze_batch:
  "batch_of videos \<noteq> [] \<Longrightarrow> load_bronze w videos d = load_outcome w (batch_of videos) d"
  by (cases videos) (simp_all add: batch_of_def load_bronze_outcome)

lemma load_bronze_persisted:
  "\<exists>p. set p \<subseteq> set (writes_of (new_videos_of d (batch_of videos))) \<and>
       persisted (load_bronze w videos d) = fold apply_stmt p d"
proof (cases "batch_of videos = []")
  case True
  then have "persisted (load_bronze w videos d) = fold apply_stmt [] d"
    by (simp add: load_bronze_empty persisted_def)
  then show ?thesis by (metis empty_set empty_subsetI)
next
  case False
  let ?ws = "writes_of (new_videos_of d (batch_of videos))"
  have "persisted (load_bronze w videos d) = fold apply_stmt [] d
      \<or> persisted (load_bronze w videos d) = fold apply_stmt (ok_prefix w ?ws) d
      \<or> persisted (load_bronze w videos d) = fold apply_stmt ?ws d"
    unfolding load_bronze_batch [OF False]
    by (simp add: load_outcome_def Let_def persisted_def)
  moreover have "set [] \<subseteq> set ?ws" by simp
  moreover have "set (ok_prefix w ?ws) \<subseteq> set ?ws" by (rule ok_prefix_subset)
  ultimately show ?thesis by (metis subset_refl)
qed

lemma load_bronze_raw_unique:
  assumes "distinct (map video_id (raw_youtube_videos d))"
  shows "distinct (map video_id (raw_youtube_videos (persisted (load_bronze w videos d))))"
proof -
  obtain p where "persisted (load_bronze w videos d) = fold apply_stmt p d"
    using load_bronze_persisted [of d videos w] by auto
  then show ?thesis using assms by (simp add: fold_apply_raw merge_rows_distinct)
qed

lemma ledger_ids_fold:
  "ledger_ids (fold apply_stmt sts d) = ledger_ids d @ inserted_ids sts"
  by (simp add: ledger_ids_def fold_apply_ledger success_row_def comp_def)

lemma new_videos_after_writes:
  "new_videos_of (fold apply_stmt (writes_of (new_videos_of d vs)) d) vs = []"
  by (auto simp: new_videos_of_def ledger_ids_fold inserted_ids_writes filter_empty_conv)

text \<open>
  C10. When nothing was pushed for the batch, or the batch is empty, \<^verbatim>\<open>load_bronze\<close> returns 0,
  makes no call on the warehouse at all (no connection, no query, no commit) and leaves both
  tables as they were, whatever the surroundings are.
\<close>

theorem load_bronze_no_input:
  "load_bronze w None d = (Inr 0, d, []) \<and> load_bronze w (Some []) d = (Inr 0, d, [])"
  by (simp add: load_bronze_def)

text \<open>
  C1. If a run of the loader on a batch returns normally and leaves the tables \<open>d1\<close>, then a
  second run on the same batch returns 0 and leaves exactly \<open>d1\<close>; the only calls it makes are
  the connection, the ledger query and the close, so it executes no MERGE, no INSERT and no
  commit. The batch need not be deduplicated. Under any other surroundings \<open>w2\<close> the second
  run still leaves \<open>d1\<close> and still makes no write.
\<close>

theorem load_bronze_idempotent:
  assumes "load_bronze w videos d = (Inr n, d1, t1)"
  shows "load_bronze w videos d1 =
           (Inr 0, d1,
            if batch_of videos = [] then []
            else [Connect, Execute (Select_processed (map video_id (batch_of videos))), Close]) \<and>
         persisted (load_bronze w2 videos d1) = d1 \<and>
         set (trace (load_bronze w2 videos d1)) \<subseteq>
           {Connect, Execute (Select_processed (map video_id (batch_of videos))), Close}"
proof (cases "batch_of videos = []")
  case True
  then show ?thesis using assms by (simp add: load_bronze_empty persisted_def trace_def)
next
  case False
  let ?vs = "batch_of videos"
  let ?sel = "Select_processed (map video_id ?vs)"
  let ?new = "new_videos_of d ?vs"
  have out: "load_outcome w ?vs d = (Inr n, d1, t1)"
    using assms False by (simp add: load_bronze_batch)
  have ok: "\<not> raises w Connect" "\<not> raises w (Execute ?sel)"
    using out by (auto simp: load_outcome_def Let_def split: if_splits)
  have d1: "d1 = (if ?new = [] then d else fold apply_stmt (writes_of ?new) d)"
    using out by (auto simp: load_outcome_def Let_def split: if_splits)
  have none: "new_videos_of d1 ?vs = []"
    unfolding d1 using new_videos_after_writes [of d ?vs] by simp
  have again: "load_outcome w ?vs d1 = (Inr 0, d1, [Connect, Execute ?sel, Close])"
    using ok none by (simp add: load_outcome_def Let_def)
  have other: "persisted (load_outcome w2 ?vs d1) = d1 \<and>
      set (trace (load_outcome w2 ?vs d1)) \<subseteq> {Connect, Execute ?sel, Close}"
    using none by (simp add: load_outcome_def Let_def persisted_def trace_def)
  show ?thesis using False again other by (simp add: load_bronze_batch)
qed

text \<open>
  C2, as amended. In a session that does not autocommit: a run that raises leaves the
  committed tables as they were; a run that returns has committed exactly the writes of the
  new videos, and its calls are the connection, the ledger query, every MERGE and INSERT, one
  commit after all of them, and the close. In any session: when a write statement of the
  batch raises, the run raises; when there are new videos and the commit raises, the run
  raises (with the commit's error, after all the writes, when nothing raised before it); and
  a run that returns has made no call that raises, so no error is swallowed. In an autocommit
  session whose connection and ledger query succeed, what is committed after the run is
  exactly the write statements before the first one that raises.
\<close>

theorem load_bronze_atomicity:
  "(\<not> autocommit w \<longrightarrow>
      (fst (load_bronze w videos d) = Inl e \<longrightarrow> persisted (load_bronze w videos d) = d) \<and>
      (fst (load_bronze w videos d) = Inr n \<longrightarrow>
         persisted (load_bronze w videos d) =
           fold apply_stmt (writes_of (new_videos_of d (batch_of videos))) d \<and>
         (new_videos_of d (batch_of videos) \<noteq> [] \<longrightarrow>
            trace (load_bronze w videos d) =
              [Connect, Execute (Select_processed (map video_id (batch_of videos)))] @
              map Execute (writes_of (new_videos_of d (batch_of videos))) @ [Commit, Close]))) \<and>
   ((\<exists>st \<in> set (writes_of (new_videos_of d (batch_of videos))). raises w (Execute st)) \<longrightarrow>
      (\<exists>e'. fst (load_bronze w videos d) = Inl e')) \<and>
   (new_videos_of d (batch_of videos) \<noteq> [] \<and> raises w Commit \<longrightarrow>
      (\<exists>e'. fst (load_bronze w videos d) = Inl e')) \<and>
   (new_videos_of d (batch_of videos) \<noteq> [] \<and> \<not> raises w Connect \<and>
    \<not> raises w (Execute (Select_processed (map video_id (batch_of videos)))) \<and>
    list_all (\<lambda>st. \<not> raises w (Execute st)) (writes_of (new_videos_of d (batch_of videos))) \<and>
    raises w Commit \<longrightarrow>
      fst (load_bronze w videos d) = Inl (StorageError Commit) \<and>
      trace (load_bronze w videos d) =
        [Connect, Execute (Select_processed (map video_id (batch_of videos)))] @
        map Execute (writes_of (new_videos_of d (batch_of videos))) @ [Commit]) \<and>
   (fst (load_bronze w videos d) = Inr n \<longrightarrow>
      (\<forall>ev \<in> set (trace (load_bronze w videos d)). ev \<noteq> Close \<longrightarrow> \<not> raises w ev)) \<and>
   (autocommit w \<and> batch_of videos \<noteq> [] \<and> \<not> raises w Connect \<and>
    \<not> raises w (Execute (Select_processed (map video_id (batch_of videos)))) \<longrightarrow>
      persisted (load_bronze w videos d) =
        fold apply_stmt (ok_prefix w (writes_of (new_videos_of d (batch_of videos)))) d)"
proof (cases "batch_of videos = []")
  case True
  then show ?thesis
    by (simp add: load_bronze_empty persisted_def trace_def new_videos_of_def writes_of_def)
next
  case False
  let ?vs = "batch_of videos"
  let ?sel = "Select_processed (map video_id ?vs)"
  let ?new = "new_videos_of d ?vs"
  let ?ws = "writes_of ?new"
  let ?out = "load_outcome w ?vs d"
  have pre: "ok_prefix w ?ws = ?ws \<longleftrightarrow> list_all (\<lambda>st. \<not> raises w (Execute st)) ?ws"
    by (auto simp: ok_prefix_def takeWhile_eq_all_conv list_all_iff)
  have ex: "(\<exists>st \<in> set ?ws. raises w (Execute st)) \<longleftrightarrow> \<not> list_all (\<lambda>st. \<not> raises w (Execute st)) ?ws"
    by (auto simp: list_all_iff)
  have w0: "?new = [] \<Longrightarrow> ?ws = []"
    by (simp add: writes_of_def)
  have w1: "?new \<noteq> [] \<Longrightarrow> ?ws \<noteq> []"
    by (cases ?new) (simp_all add: writes_of_def)
  have a: "\<not> autocommit w \<longrightarrow> fst ?out = Inl e \<longrightarrow> persisted ?out = d"
    by (simp add: load_outcome_def Let_def persisted_def)
  have b: "fst ?out = Inr n \<longrightarrow>
          persisted ?out = fold apply_stmt ?ws d \<and>
          (?new \<noteq> [] \<longrightarrow>
             trace ?out = [Connect, Execute ?sel] @ map Execute ?ws @ [Commit, Close])"
    using w0 by (auto simp: load_outcome_def Let_def persisted_def trace_def split: if_splits)
  have c: "(\<exists>st \<in> set ?ws. raises w (Execute st)) \<longrightarrow> (\<exists>e'. fst ?out = Inl e')"
    using pre w0 unfolding ex by (auto simp: load_outcome_def Let_def)
  have dd: "?new \<noteq> [] \<and> raises w Commit \<longrightarrow> (\<exists>e'. fst ?out = Inl e')"
    by (simp add: load_outcome_def Let_def)
  have ee: "?new \<noteq> [] \<and> \<not> raises w Connect \<and> \<not> raises w (Execute ?sel) \<and>
      list_all (\<lambda>st. \<not> raises w (Execute st)) ?ws \<and> raises w Commit \<longrightarrow>
      fst ?out = Inl (StorageError Commit) \<and>
      trace ?out = [Connect, Execute ?sel] @ map Execute ?ws @ [Commit]"
  proof (intro impI)
    assume h: "?new \<noteq> [] \<and> \<not> raises w Connect \<and> \<not> raises w (Execute ?sel) \<and>
      list_all (\<lambda>st. \<not> raises w (Execute st)) ?ws \<and> raises w Commit"
    then have p: "ok_prefix w ?ws = ?ws" using pre by simp
    show "fst ?out = Inl (StorageError Commit) \<and>
      trace ?out = [Connect, Execute ?sel] @ map Execute ?ws @ [Commit]"
      using h by (simp add: load_outcome_def Let_def trace_def p)
  qed
  have ff: "fst ?out = Inr n \<longrightarrow> (\<forall>ev \<in> set (trace ?out). ev \<noteq> Close \<longrightarrow> \<not> raises w ev)"
  proof (intro impI ballI)
    fix ev
    assume ok: "fst ?out = Inr n" and ev: "ev \<in> set (trace ?out)" and nc: "ev \<noteq> Close"
    have n1: "\<not> raises w Connect" "\<not> raises w (Execute ?sel)"
      using ok by (auto simp: load_outcome_def Let_def split: if_splits)
    show "\<not> raises w ev"
    proof (cases "?new = []")
      case True
      then show ?thesis using n1 ev nc
        by (auto simp: load_outcome_def Let_def trace_def)
    next
      case nonempty: False
      have n2: "ok_prefix w ?ws = ?ws" "\<not> raises w Commit"
        using ok nonempty by (auto simp: load_outcome_def Let_def split: if_splits)
      have tr: "trace ?out = [Connect, Execute ?sel] @ map Execute ?ws @ [Commit, Close]"
        using n1 n2 nonempty by (simp add: load_outcome_def Let_def trace_def)
      have "\<forall>st \<in> set ?ws. \<not> raises w (Execute st)"
        using n2(1) pre by (simp add: list_all_iff)
      then show ?thesis using ev nc n1 n2(2) unfolding tr by auto
    qed
  qed
  have gg: "autocommit w \<and> \<not> raises w Connect \<and> \<not> raises w (Execute ?sel) \<longrightarrow>
      persisted ?out = fold apply_stmt (ok_prefix w ?ws) d"
  proof (cases "ok_prefix w ?ws = ?ws")
    case True
    have "autocommit w \<and> \<not> raises w Connect \<and> \<not> raises w (Execute ?sel) \<longrightarrow>
      persisted ?out = fold apply_stmt ?ws d"
      using w0 True by (simp add: load_outcome_def Let_def persisted_def)
    then show ?thesis using True by simp
  next
    case False
    then have "?new \<noteq> []" using w0 by (auto simp: ok_prefix_def)
    then show ?thesis using False by (simp add: load_outcome_def Let_def persisted_def)
  qed
  show ?thesis
    unfolding load_bronze_batch [OF False]
    using a b c dd ee ff gg False by blast
qed

lemma merge_rows_mono: "set rows \<subseteq> set (fold merge_row rs rows)"
  using merge_rows_extend [of rs rows] by auto

lemma merge_rows_inserted:
  "r \<in> set rs \<Longrightarrow> video_id r \<notin> video_id ` set rows \<Longrightarrow>
   (\<forall>r' \<in> set rs. video_id r' = video_id r \<longrightarrow> r' = r) \<Longrightarrow>
   r \<in> set (fold merge_row rs rows)"
proof (induction rs arbitrary: rows)
  case Nil then show ?case by simp
next
  case (Cons a rs)
  show ?case
  proof (cases "a = r")
    case True
    then have "r \<in> set (merge_row a rows)" using Cons.prems(2) by (auto simp: merge_row_def)
    then show ?thesis using merge_rows_mono [of "merge_row a rows" rs] by auto
  next
    case False
    then have ne: "video_id a \<noteq> video_id r" using Cons.prems(3) by auto
    have "r \<in> set rs" using Cons.prems(1) False by auto
    moreover have "video_id r \<notin> video_id ` set (merge_row a rows)"
      using Cons.prems(2) ne by (auto simp: merge_row_def)
    moreover have "\<forall>r' \<in> set rs. video_id r' = video_id r \<longrightarrow> r' = r"
      using Cons.prems(3) by auto
    ultimately show ?thesis using Cons.IH [of "merge_row a rows"] by simp
  qed
qed

lemma success_ids_ledger: "set (success_ids d) \<subseteq> set (ledger_ids d)"
  by (auto simp: success_ids_def ledger_ids_def)

lemma success_ids_fold:
  "success_ids (fold apply_stmt sts d) = success_ids d @ inserted_ids sts"
  by (simp add: success_ids_def fold_apply_ledger success_row_def comp_def)

lemma writes_new_ids:
  assumes "set p \<subseteq> set (writes_of (new_videos_of d vs))" "Merge_raw r \<in> set p"
  shows "video_id r \<notin> set (ledger_ids d)"
proof -
  have "r \<in> set (merged_rows (writes_of (new_videos_of d vs)))"
    using assms by (auto simp: merged_rows_set)
  then show ?thesis
    by (auto simp: merged_rows_writes new_videos_of_def video_id_raw_values)
qed

lemma rows_with_fold:
  assumes "\<forall>r. Merge_raw r \<in> set p \<longrightarrow> video_id r \<noteq> i"
  shows "rows_with i (fold apply_stmt p d) = rows_with i d"
proof -
  have "i \<notin> video_id ` set (merged_rows p)"
    using assms by (auto simp: merged_rows_set)
  then show ?thesis
    unfolding rows_with_def fold_apply_raw by (rule merge_rows_unchanged)
qed

lemma load_bronze_trace_writes:
  assumes "Execute (Merge_raw r) \<in> set (trace (load_bronze w videos d))"
  shows "Merge_raw r \<in> set (writes_of (new_videos_of d (batch_of videos)))"
proof (cases "batch_of videos = []")
  case True
  then show ?thesis using assms by (simp add: load_bronze_empty trace_def)
next
  case False
  let ?ws = "writes_of (new_videos_of d (batch_of videos))"
  have "Execute (Merge_raw r) \<in> set (map Execute (take (Suc (length (ok_prefix w ?ws))) ?ws))"
    using assms False
    by (auto simp: load_bronze_batch load_outcome_def Let_def trace_def split: if_splits)
  then show ?thesis by (auto dest: in_set_takeD)
qed

lemma load_bronze_keeps_ledgered:
  assumes "i \<in> set (success_ids d)"
  shows "rows_with i (persisted (load_bronze w videos d)) = rows_with i d"
    and "i \<in> set (success_ids (persisted (load_bronze w videos d)))"
proof -
  obtain p where p: "set p \<subseteq> set (writes_of (new_videos_of d (batch_of videos)))"
      "persisted (load_bronze w videos d) = fold apply_stmt p d"
    using load_bronze_persisted [of d videos w] by auto
  have "\<forall>r. Merge_raw r \<in> set p \<longrightarrow> video_id r \<noteq> i"
    using writes_new_ids [OF p(1)] assms success_ids_ledger [of d] by auto
  then show "rows_with i (persisted (load_bronze w videos d)) = rows_with i d"
    unfolding p(2) by (rule rows_with_fold)
  show "i \<in> set (success_ids (persisted (load_bronze w videos d)))"
    unfolding p(2) using assms by (simp add: success_ids_fold)
qed

lemma load_runs_keeps_ledgered:
  "i \<in> set (success_ids d) \<Longrightarrow> rows_with i (load_runs w batches d) = rows_with i d"
proof (induction batches arbitrary: d)
  case Nil show ?case by simp
next
  case (Cons videos batches)
  have "rows_with i (load_runs w batches (persisted (load_bronze w videos d)))
          = rows_with i (persisted (load_bronze w videos d))"
    using Cons.IH load_bronze_keeps_ledgered(2) [OF Cons.prems] by simp
  then show ?case
    using load_bronze_keeps_ledgered(1) [OF Cons.prems, of w videos] by (simp add: persisted_def)
qed

text \<open>
  C3. For an identifier that the ledger holds with status SUCCESS before a run: whatever the
  batch, the surroundings and the outcome of the run, the rows of the raw table with that
  identifier are the same after the run as before, no MERGE for that identifier is even
  executed, the identifier is still in the ledger with status SUCCESS afterwards, and so the
  same holds after any number of successive runs.
\<close>

theorem ledgered_identifier_never_reinserted:
  assumes "i \<in> set (success_ids d)"
  shows "rows_with i (persisted (load_bronze w videos d)) = rows_with i d \<and>
         (\<forall>r. Execute (Merge_raw r) \<in> set (trace (load_bronze w videos d)) \<longrightarrow> video_id r \<noteq> i) \<and>
         i \<in> set (success_ids (persisted (load_bronze w videos d))) \<and>
         rows_with i (load_runs w batches d) = rows_with i d"
proof -
  have "\<forall>r. Execute (Merge_raw r) \<in> set (trace (load_bronze w videos d)) \<longrightarrow> video_id r \<noteq> i"
    using load_bronze_trace_writes [of _ w videos d] writes_new_ids [of _ d "batch_of videos"]
          assms success_ids_ledger [of d]
    by blast
  then show ?thesis
    using load_bronze_keeps_ledgered [OF assms] load_runs_keeps_ledgered [OF assms] by simp
qed

lemma raw_values_lengths:
  "length (title (raw_values v)) \<le> 500 \<and> length (description (raw_values v)) \<le> 5000 \<and>
   length (channel_title (raw_values v)) \<le> 200"
  by (simp add: raw_values_def)

lemma load_bronze_new_rows:
  assumes "r \<in> set (raw_youtube_videos (persisted (load_bronze w videos d)))"
      "r \<notin> set (raw_youtube_videos d)"
  shows "\<exists>v \<in> set (batch_of videos). r = raw_values v"
proof -
  obtain p where p: "set p \<subseteq> set (writes_of (new_videos_of d (batch_of videos)))"
      "persisted (load_bronze w videos d) = fold apply_stmt p d"
    using load_bronze_persisted [of d videos w] by auto
  obtain added where a: "fold merge_row (merged_rows p) (raw_youtube_videos d)
        = raw_youtube_videos d @ added" "set added \<subseteq> set (merged_rows p)"
    using merge_rows_extend by blast
  have "r \<in> set (merged_rows p)"
    using assms a unfolding p(2) fold_apply_raw by auto
  then have "r \<in> set (merged_rows (writes_of (new_videos_of d (batch_of videos))))"
    using p(1) by (auto simp: merged_rows_set)
  then show ?thesis by (auto simp: merged_rows_writes new_videos_of_def)
qed

lemma load_bronze_success_persisted:
  assumes "fst (load_bronze w videos d) = Inr n"
  shows "persisted (load_bronze w videos d) =
           fold apply_stmt (writes_of (new_videos_of d (batch_of videos))) d"
    and "n = length (new_videos_of d (batch_of videos))"
proof -
  have w0: "new_videos_of d (batch_of videos) = [] \<Longrightarrow>
        writes_of (new_videos_of d (batch_of videos)) = []"
    by (simp add: writes_of_def)
  show "persisted (load_bronze w videos d) =
           fold apply_stmt (writes_of (new_videos_of d (batch_of videos))) d"
  proof (cases "batch_of videos = []")
    case True
    then show ?thesis
      by (simp add: load_bronze_empty persisted_def new_videos_of_def writes_of_def)
  next
    case False
    then show ?thesis using assms w0
      by (auto simp: load_bronze_batch load_outcome_def Let_def persisted_def split: if_splits)
  qed
  show "n = length (new_videos_of d (batch_of videos))"
  proof (cases "batch_of videos = []")
    case True
    then show ?thesis using assms by (simp add: load_bronze_empty new_videos_of_def)
  next
    case False
    then show ?thesis using assms
      by (auto simp: load_bronze_batch load_outcome_def Let_def split: if_splits)
  qed
qed

lemma load_bronze_row_present:
  assumes ok: "fst (load_bronze w videos d) = Inr n"
    and dist: "distinct (map video_id (batch_of videos))"
    and v: "v \<in> set (batch_of videos)"
    and nl: "video_id v \<notin> set (ledger_ids d)"
    and nr: "video_id v \<notin> video_id ` set (raw_youtube_videos d)"
  shows "raw_values v \<in> set (raw_youtube_videos (persisted (load_bronze w videos d)))"
proof -
  let ?new = "new_videos_of d (batch_of videos)"
  have vn: "v \<in> set ?new" using v nl by (simp add: new_videos_of_def)
  have dn: "distinct (map video_id ?new)"
    using dist by (simp add: new_videos_of_def distinct_map_filter)
  have uniq: "\<forall>r' \<in> set (map raw_values ?new).
          video_id r' = video_id (raw_values v) \<longrightarrow> r' = raw_values v"
  proof
    fix r' assume "r' \<in> set (map raw_values ?new)"
    then obtain v' where v': "v' \<in> set ?new" "r' = raw_values v'" by auto
    show "video_id r' = video_id (raw_values v) \<longrightarrow> r' = raw_values v"
    proof
      assume same: "video_id r' = video_id (raw_values v)"
      have ids: "video_id v' = video_id v" using v'(2) same by (simp add: video_id_raw_values)
      have inj: "inj_on video_id (set ?new)" using dn by (simp add: distinct_map)
      have "v' = v" by (rule inj_onD [OF inj ids v'(1) vn])
      then show "r' = raw_values v" using v'(2) by simp
    qed
  qed
  have in_rs: "raw_values v \<in> set (map raw_values ?new)" using vn by simp
  have fresh: "video_id (raw_values v) \<notin> video_id ` set (raw_youtube_videos d)"
    unfolding video_id_raw_values by (rule nr)
  have "raw_values v \<in> set (fold merge_row (map raw_values ?new) (raw_youtube_videos d))"
    by (rule merge_rows_inserted [OF in_rs fresh uniq])
  then show ?thesis
    using load_bronze_success_persisted(1) [OF ok]
    by (simp add: fold_apply_raw merged_rows_writes)
qed

text \<open>
  C8. Every row of the raw table after a run is a row that was there before or the row of a
  candidate of the batch with the title cut to at most 500 characters, the description to at
  most 5000 and the channel name to at most 200. When the run returns, the batch has distinct
  identifiers and a candidate's identifier is in neither table, the raw table holds a row for
  it whose title, description and channel name are the first 500, 5000 and 200 characters of
  the candidate's; a title of 600 characters is stored with length 500.
\<close>

theorem load_bronze_truncates:
  "(\<forall>r \<in> set (raw_youtube_videos (persisted (load_bronze w videos d))).
      r \<in> set (raw_youtube_videos d) \<or>
      (\<exists>v \<in> set (batch_of videos).
         r = raw_values v \<and> length (title r) \<le> 500 \<and> length (description r) \<le> 5000 \<and>
         length (channel_title r) \<le> 200)) \<and>
   (fst (load_bronze w videos d) = Inr n \<and> distinct (map video_id (batch_of videos)) \<and>
    v \<in> set (batch_of videos) \<and> video_id v \<notin> set (ledger_ids d) \<and>
    video_id v \<notin> video_id ` set (raw_youtube_videos d) \<longrightarrow>
      (\<exists>r \<in> set (raw_youtube_videos (persisted (load_bronze w videos d))).
         video_id r = video_id v \<and> title r = take 500 (title v) \<and>
         description r = take 5000 (description v) \<and>
         channel_title r = take 200 (channel_title v) \<and>
         (length (title v) = 600 \<longrightarrow> length (title r) = 500)))"
proof (intro conjI ballI impI)
  fix r assume r: "r \<in> set (raw_youtube_videos (persisted (load_bronze w videos d)))"
  show "r \<in> set (raw_youtube_videos d) \<or>
      (\<exists>v \<in> set (batch_of videos).
         r = raw_values v \<and> length (title r) \<le> 500 \<and> length (description r) \<le> 5000 \<and>
         length (channel_title r) \<le> 200)"
    using load_bronze_new_rows [OF r] raw_values_lengths by blast
next
  assume a: "fst (load_bronze w videos d) = Inr n \<and> distinct (map video_id (batch_of videos)) \<and>
    v \<in> set (batch_of videos) \<and> video_id v \<notin> set (ledger_ids d) \<and>
    video_id v \<notin> video_id ` set (raw_youtube_videos d)"
  then have "raw_values v \<in> set (raw_youtube_videos (persisted (load_bronze w videos d)))"
    using load_bronze_row_present [of w videos d n v] by blast
  moreover have "video_id (raw_values v) = video_id v \<and> title (raw_values v) = take 500 (title v) \<and>
         description (raw_values v) = take 5000 (description v) \<and>
         channel_title (raw_values v) = take 200 (channel_title v) \<and>
         (length (title v) = 600 \<longrightarrow> length (title (raw_values v)) = 500)"
    by (simp add: raw_values_def)
  ultimately show "\<exists>r \<in> set (raw_youtube_videos (persisted (load_bronze w videos d))).
         video_id r = video_id v \<and> title r = take 500 (title v) \<and>
         description r = take 5000 (description v) \<and>
         channel_title r = take 200 (channel_title v) \<and>
         (length (title v) = 600 \<longrightarrow> length (title r) = 500)"
    by blast
qed

text \<open>
  C9. When the loader returns \<open>n\<close>, \<open>n\<close> is the number of candidates of the batch whose
  identifier was not in the ledger, the ledger has grown by exactly the identifiers of these
  candidates, and, for a batch with distinct identifiers on tables where every raw row is
  ledgered, the raw table has grown by \<open>n\<close> rows. When no call raises, the loader does return
  that number. When no candidate is new (an empty batch, or all identifiers in the ledger)
  the number is 0 and the tables are unchanged.
\<close>

theorem load_bronze_returns_new_count:
  "(fst (load_bronze w videos d) = Inr n \<longrightarrow>
      n = length (filter (\<lambda>v. video_id v \<notin> set (ledger_ids d)) (batch_of videos)) \<and>
      ledger_ids (persisted (load_bronze w videos d)) =
        ledger_ids d @ map video_id (filter (\<lambda>v. video_id v \<notin> set (ledger_ids d)) (batch_of videos)) \<and>
      (distinct (map video_id (batch_of videos)) \<and>
       video_id ` set (raw_youtube_videos d) \<subseteq> set (ledger_ids d) \<longrightarrow>
         length (raw_youtube_videos (persisted (load_bronze w videos d))) =
           length (raw_youtube_videos d) + n)) \<and>
   ((\<forall>e. \<not> raises w e) \<longrightarrow>
      fst (load_bronze w videos d) =
        Inr (length (filter (\<lambda>v. video_id v \<notin> set (ledger_ids d)) (batch_of videos)))) \<and>
   (filter (\<lambda>v. video_id v \<notin> set (ledger_ids d)) (batch_of videos) = [] \<and>
    fst (load_bronze w videos d) = Inr n \<longrightarrow>
      n = 0 \<and> persisted (load_bronze w videos d) = d)"
proof (intro conjI impI)
  let ?new = "new_videos_of d (batch_of videos)"
  assume ok: "fst (load_bronze w videos d) = Inr n"
  show "n = length (filter (\<lambda>v. video_id v \<notin> set (ledger_ids d)) (batch_of videos))"
    using load_bronze_success_persisted(2) [OF ok] by (simp add: new_videos_of_def)
  show "ledger_ids (persisted (load_bronze w videos d)) =
        ledger_ids d @ map video_id (filter (\<lambda>v. video_id v \<notin> set (ledger_ids d)) (batch_of videos))"
    using load_bronze_success_persisted(1) [OF ok]
    by (simp add: ledger_ids_fold inserted_ids_writes new_videos_of_def)
  assume c: "distinct (map video_id (batch_of videos)) \<and>
       video_id ` set (raw_youtube_videos d) \<subseteq> set (ledger_ids d)"
  have "distinct (map video_id (map raw_values ?new))"
    using c by (simp add: new_videos_of_def distinct_map_filter comp_def video_id_raw_values)
  moreover have "video_id ` set (map raw_values ?new) \<inter> video_id ` set (raw_youtube_videos d) = {}"
    using c by (auto simp: new_videos_of_def video_id_raw_values)
  ultimately have "fold merge_row (map raw_values ?new) (raw_youtube_videos d)
      = raw_youtube_videos d @ map raw_values ?new"
    by (rule merge_rows_fresh)
  then show "length (raw_youtube_videos (persisted (load_bronze w videos d))) =
           length (raw_youtube_videos d) + n"
    using load_bronze_success_persisted [OF ok]
    by (simp add: fold_apply_raw merged_rows_writes)
next
  assume nf: "\<forall>e. \<not> raises w e"
  have pre: "ok_prefix w sts = sts" for sts
    using nf by (simp add: ok_prefix_def)
  show "fst (load_bronze w videos d) =
        Inr (length (filter (\<lambda>v. video_id v \<notin> set (ledger_ids d)) (batch_of videos)))"
  proof (cases "batch_of videos = []")
    case True
    then show ?thesis by (simp add: load_bronze_empty)
  next
    case False
    then show ?thesis using nf pre
      by (simp add: load_bronze_batch load_outcome_def Let_def new_videos_of_def)
  qed
next
  assume a: "filter (\<lambda>v. video_id v \<notin> set (ledger_ids d)) (batch_of videos) = [] \<and>
    fst (load_bronze w videos d) = Inr n"
  then show "n = 0"
    using load_bronze_success_persisted(2) [of w videos d n] by (simp add: new_videos_of_def)
next
  assume a: "filter (\<lambda>v. video_id v \<notin> set (ledger_ids d)) (batch_of videos) = [] \<and>
    fst (load_bronze w videos d) = Inr n"
  then show "persisted (load_bronze w videos d) = d"
    using load_bronze_success_persisted(1) [of w videos d n]
    by (simp add: new_videos_of_def writes_of_def)
qed

section \<open>Watermark Reader and Source Fetcher\<close>

lemma sql_max_Max: "sql_max (x # xs) = Some (Max (set (x # xs)))"
  using Max.set_eq_fold [of x xs] by simp

lemma query_succeeds_not_fails: "query_succeeds w t q \<Longrightarrow> \<not> query_fails w t q"
  by (auto simp: query_succeeds_def query_fails_def split: sum.splits)

text \<open>
  C6. The Watermark Reader raises when the connection or the query raises; otherwise it
  returns the current time minus seven days (in seconds) when the raw table has no row, and
  the greatest publication timestamp of the rows of the raw table when it has one.
\<close>

theorem read_watermark_value:
  "read_watermark w d =
     (if raises w Connect then Inl (StorageError Connect)
      else if raises w (Execute Select_watermark) then Inl (StorageError (Execute Select_watermark))
      else Inr (if raw_youtube_videos d = [] then now w - 7 * 86400
                else Max (set (map (\<lambda>r. to_timestamp w (published_at r)) (raw_youtube_videos d)))))"
proof (cases "raw_youtube_videos d")
  case Nil
  then show ?thesis
    by (simp add: read_watermark_def get_snowflake_connection_def execute_def fetch_watermark_def
          Let_def)
next
  case (Cons r rs)
  have "sql_max (map (\<lambda>r. to_timestamp w (published_at r)) (raw_youtube_videos d)) =
     Some (Max (set (map (\<lambda>r. to_timestamp w (published_at r)) (raw_youtube_videos d))))"
    unfolding Cons list.map by (rule sql_max_Max)
  then show ?thesis using Cons
    by (simp add: read_watermark_def get_snowflake_connection_def execute_def fetch_watermark_def
          Let_def)
qed



lemma process_items_yield:
  "snd (process_items lo to_int its acc) = acc @ kept_of lo to_int (takeWhile (item_ok lo to_int) its)"
proof (induction its arbitrary: acc)
  case Nil show ?case by (simp add: kept_of_def map_filter_simps)
next
  case (Cons it its)
  show ?case
  proof (cases "candidate_of lo to_int it")
    case (Inl e)
    then show ?thesis by (simp add: item_ok_def kept_of_def map_filter_simps)
  next
    case (Inr c)
    then show ?thesis using Cons.IH
      by (cases c) (simp_all add: item_ok_def kept_of_def map_filter_simps)
  qed
qed

lemma process_items_raises:
  "fst (process_items lo to_int its acc) = None \<longleftrightarrow> list_all (item_ok lo to_int) its"
proof (induction its arbitrary: acc)
  case Nil show ?case by simp
next
  case (Cons it its)
  show ?case
  proof (cases "candidate_of lo to_int it")
    case (Inl e)
    then show ?thesis by (simp add: item_ok_def)
  next
    case (Inr c)
    then show ?thesis using Cons.IH by (cases c) (simp_all add: item_ok_def)
  qed
qed

lemma fetch_query_general:
  "fetch_query w t q st =
     (fst st @ query_yield w t q, snd st @ (if query_raises w t q then [q] else []))"
proof (cases "search w t q")
  case (Inl e)
  then show ?thesis by (simp add: fetch_query_def query_yield_def query_raises_def)
next
  case (Inr response)
  obtain r vs where p: "process_items (str_lower w) (py_int w) (response_items response) (fst st) = (r, vs)"
    by (cases "process_items (str_lower w) (py_int w) (response_items response) (fst st)")
  have vs: "vs = fst st @ kept_of (str_lower w) (py_int w) (takeWhile (item_ok (str_lower w) (py_int w)) (response_items response))"
    using process_items_yield [of "str_lower w" "py_int w" "response_items response" "fst st"] p by simp
  have r: "r = None \<longleftrightarrow> list_all (item_ok (str_lower w) (py_int w)) (response_items response)"
    using process_items_raises [of "str_lower w" "py_int w" "response_items response" "fst st"] p by simp
  show ?thesis
  proof (cases r)
    case None
    then show ?thesis using Inr p vs r
      by (simp add: fetch_query_def query_yield_def query_raises_def response_items_def)
  next
    case (Some e)
    then show ?thesis using Inr p vs r
      by (simp add: fetch_query_def query_yield_def query_raises_def response_items_def)
  qed
qed

lemma fetch_all_general:
  "fetch_all w t qs st =
     (fst st @ concat (map (query_yield w t) qs), snd st @ filter (query_raises w t) qs)"
proof (induction qs arbitrary: st)
  case Nil show ?case by simp
next
  case (Cons q qs)
  show ?case using Cons.IH [of "fetch_query w t q st"] by (simp add: fetch_query_general)
qed

lemma query_fails_yield: "query_fails w t q \<Longrightarrow> query_raises w t q \<and> query_yield w t q = []"
  by (auto simp: query_fails_def query_raises_def query_yield_def split: sum.splits)

lemma takeWhile_all: "list_all P xs \<Longrightarrow> takeWhile P xs = xs"
  by (simp add: list_all_iff)

lemma query_succeeds_yield:
  "query_succeeds w t q \<Longrightarrow> \<not> query_raises w t q \<and> query_yield w t q = query_items w t q"
  by (cases "search w t q")
     (simp_all add: query_succeeds_def query_raises_def query_yield_def query_items_def
        item_ok_def [abs_def] takeWhile_all)

lemma query_raises_iff: "query_raises w t q \<longleftrightarrow> \<not> query_succeeds w t q"
  by (cases "search w t q") (simp_all add: query_succeeds_def query_raises_def item_ok_def [abs_def])

lemma fetch_all_clean:
  assumes "\<forall>q \<in> set qs. query_fails w t q \<or> query_succeeds w t q"
  shows "concat (map (query_yield w t) qs) =
           concat (map (query_items w t) (filter (query_succeeds w t) qs)) \<and>
         filter (query_raises w t) qs = filter (query_fails w t) qs"
  using assms
proof (induction qs)
  case Nil show ?case by simp
next
  case (Cons q qs)
  have rest: "\<forall>q \<in> set qs. query_fails w t q \<or> query_succeeds w t q" using Cons.prems by simp
  show ?case
  proof (cases "query_succeeds w t q")
    case True
    then show ?thesis
      using Cons.IH [OF rest] query_succeeds_yield [OF True] query_succeeds_not_fails [OF True]
      by simp
  next
    case False
    then have f: "query_fails w t q" using Cons.prems by simp
    show ?thesis
      using Cons.IH [OF rest] query_fails_yield [OF f] False f by simp
  qed
qed

text \<open>
  C5, as amended. When the watermark was read and the search client was built,
  \<^verbatim>\<open>extract_youtube\<close> does not raise, whatever the queries do: it returns the deduplicated
  concatenation of what each query's pass appended, and logs exactly the queries whose pass
  raised. A query whose request raises appends nothing; a query whose response is processed
  without an exception appends all its items that pass the keyword filter; a query that raises
  at an item has appended the candidates of the items before it. So when every query either
  raises at the request or is processed without an exception, the result is the deduplicated
  union of the successful queries' matching items, with the failing queries logged.
\<close>

theorem extract_youtube_partial_failure:
  assumes "read_watermark w d = Inr t" and "\<not> build_raises w"
  shows "extract_youtube w d =
           Inr (deduplicate (concat (map (query_yield w t) SEARCH_QUERIES)),
                filter (query_raises w t) SEARCH_QUERIES) \<and>
         (\<forall>q. query_fails w t q \<longrightarrow> query_raises w t q \<and> query_yield w t q = []) \<and>
         (\<forall>q. query_succeeds w t q \<longrightarrow>
            \<not> query_raises w t q \<and> query_yield w t q = query_items w t q) \<and>
         (\<forall>q. query_raises w t q \<longleftrightarrow> \<not> query_succeeds w t q) \<and>
         ((\<forall>q \<in> set SEARCH_QUERIES. query_fails w t q \<or> query_succeeds w t q) \<longrightarrow>
            extract_youtube w d =
              Inr (deduplicate
                     (concat (map (query_items w t)
                        (filter (query_succeeds w t) SEARCH_QUERIES))),
                   filter (query_fails w t) SEARCH_QUERIES))"
proof -
  have ex: "extract_youtube w d =
           Inr (deduplicate (concat (map (query_yield w t) SEARCH_QUERIES)),
                filter (query_raises w t) SEARCH_QUERIES)"
    using assms fetch_all_general [of w t SEARCH_QUERIES "([], [])"]
    by (simp add: extract_youtube_def)
  have clean: "(\<forall>q \<in> set SEARCH_QUERIES. query_fails w t q \<or> query_succeeds w t q) \<longrightarrow>
            extract_youtube w d =
              Inr (deduplicate
                     (concat (map (query_items w t)
                        (filter (query_succeeds w t) SEARCH_QUERIES))),
                   filter (query_fails w t) SEARCH_QUERIES)"
    using ex fetch_all_clean [of SEARCH_QUERIES w t] by simp
  show ?thesis
    using ex clean query_fails_yield [of w t] query_succeeds_yield [of w t]
      query_raises_iff [of w t]
    by blast
qed











section \<open>The example run, evaluated\<close>

lemmas fetch_eval =
  candidate_of_def matched_keywords_def text_blob_def ascii_lower_def ascii_lower_char_def
  FOOD_KEYWORDS_def replace_T_def year_2024_def
  item_gel_def item_banana_def item_shoes_def item_car_b_def
  video_gel_def video_banana_def

lemmas load_eval =
  load_bronze_def get_snowflake_connection_def execute_def commit_def close_def
  fetch_existing_ids_def raw_values_def Let_def persisted_def trace_def
  env_ok_def env_write_fails_def env_autocommit_write_fails_def
  db_empty_def db_loaded_def db_gel_def success_row_def
  video_gel_def video_banana_def video_long_def

lemma candidate_of_gel: "candidate_of ascii_lower year_2024 item_gel = Inr (Some video_gel)"
  by (simp add: fetch_eval)

lemma candidate_of_banana: "candidate_of ascii_lower year_2024 item_banana = Inr (Some video_banana)"
  by (simp add: fetch_eval)

lemma candidate_of_shoes: "candidate_of ascii_lower year_2024 item_shoes = Inr None"
  by (simp add: fetch_eval)




text \<open>Two videos loaded into empty tables, then loaded again.\<close>

theorem load_bronze_idempotent_witness:
  "load_bronze env_ok (Some [video_gel, video_banana]) db_empty =
     (Inr 2, db_loaded,
      [Connect, Execute (Select_processed [''abc123'', ''xyz789'']),
       Execute (Merge_raw video_gel), Execute (Insert_processed ''abc123''),
       Execute (Merge_raw video_banana), Execute (Insert_processed ''xyz789''),
       Commit, Close]) \<and>
   load_bronze env_ok (Some [video_gel, video_banana]) db_loaded =
     (Inr 0, db_loaded, [Connect, Execute (Select_processed [''abc123'', ''xyz789'']), Close])"
proof -
  have run: "load_bronze env_ok (Some [video_gel, video_banana]) db_empty =
     (Inr 2, db_loaded,
      [Connect, Execute (Select_processed [''abc123'', ''xyz789'']),
       Execute (Merge_raw video_gel), Execute (Insert_processed ''abc123''),
       Execute (Merge_raw video_banana), Execute (Insert_processed ''xyz789''),
       Commit, Close])"
    by (simp add: load_eval)
  show ?thesis
    using run load_bronze_idempotent [OF run]
    by (simp add: batch_of_def video_gel_def video_banana_def)
qed

text \<open>
  Without autocommit: a failing ledger INSERT, and a failing commit, leave the empty tables
  empty and the run raises.
\<close>

theorem load_bronze_atomic_witness:
  "\<not> autocommit env_write_fails \<and>
   fst (load_bronze env_write_fails (Some [video_gel, video_banana]) db_empty) =
     Inl (StorageError (Execute (Insert_processed ''xyz789''))) \<and>
   persisted (load_bronze env_write_fails (Some [video_gel, video_banana]) db_empty) = db_empty \<and>
   \<not> autocommit env_commit_fails \<and> raises env_commit_fails Commit \<and>
   fst (load_bronze env_commit_fails (Some [video_gel, video_banana]) db_empty) =
     Inl (StorageError Commit) \<and>
   persisted (load_bronze env_commit_fails (Some [video_gel, video_banana]) db_empty) = db_empty \<and>
   fst (load_bronze env_ok (Some [video_gel, video_banana]) db_empty) = Inr 2 \<and>
   persisted (load_bronze env_ok (Some [video_gel, video_banana]) db_empty) = db_loaded"
proof -
  let ?b = "Some [video_gel, video_banana]"
  have h: "\<not> autocommit env_write_fails" by (simp add: env_write_fails_def env_ok_def)
  have h2: "\<not> autocommit env_ok" by (simp add: env_ok_def)
  have h3: "\<not> autocommit env_commit_fails" "raises env_commit_fails Commit"
    by (simp_all add: env_commit_fails_def env_ok_def)
  have f: "fst (load_bronze env_write_fails ?b db_empty) =
     Inl (StorageError (Execute (Insert_processed ''xyz789'')))"
    by (simp add: load_eval)
  have g: "fst (load_bronze env_ok ?b db_empty) = Inr 2"
    by (simp add: load_eval)
  have new: "new_videos_of db_empty (batch_of ?b) \<noteq> []"
    by (simp add: new_videos_of_def ledger_ids_def batch_of_def db_empty_def)
  have p: "fold apply_stmt (writes_of (new_videos_of db_empty (batch_of ?b))) db_empty = db_loaded"
    by (simp add: writes_of_def new_videos_of_def ledger_ids_def batch_of_def load_eval)
  have p1: "persisted (load_bronze env_write_fails ?b db_empty) = db_empty"
    using load_bronze_atomicity [of env_write_fails ?b db_empty
        "StorageError (Execute (Insert_processed ''xyz789''))"] h f
    by blast
  obtain e' where c: "fst (load_bronze env_commit_fails ?b db_empty) = Inl e'"
    using load_bronze_atomicity [of env_commit_fails ?b db_empty] new h3(2) by blast
  have p3: "persisted (load_bronze env_commit_fails ?b db_empty) = db_empty"
    using load_bronze_atomicity [of env_commit_fails ?b db_empty e'] h3(1) c by blast
  have c': "fst (load_bronze env_commit_fails ?b db_empty) = Inl (StorageError Commit)"
    by (simp add: load_eval env_commit_fails_def)
  have p2: "persisted (load_bronze env_ok ?b db_empty) = db_loaded"
    using load_bronze_atomicity [of env_ok ?b db_empty _ 2] h2 g p by metis
  show ?thesis using h f p1 h3 c' p3 g p2 by blast
qed

text \<open>
  C2 as stated fails in an autocommit session: the ledger INSERT for the second video raises,
  the run raises, and the first video's row and ledger entry and the second video's row are
  committed.
\<close>

theorem load_bronze_autocommit_partial_commit:
  "autocommit env_autocommit_write_fails \<and>
   load_bronze env_autocommit_write_fails (Some [video_gel, video_banana]) db_empty =
     (Inl (StorageError (Execute (Insert_processed ''xyz789''))),
      \<lparr>raw_youtube_videos = [video_gel, video_banana],
       stg_processed_videos = [success_row ''abc123'']\<rparr>,
      [Connect, Execute (Select_processed [''abc123'', ''xyz789'']),
       Execute (Merge_raw video_gel), Execute (Insert_processed ''abc123''),
       Execute (Merge_raw video_banana), Execute (Insert_processed ''xyz789'')]) \<and>
   persisted (load_bronze env_autocommit_write_fails (Some [video_gel, video_banana]) db_empty)
     \<noteq> db_empty"
  by (simp add: load_eval)

text \<open>
  A batch that carries a changed record for a ledgered identifier: the stored row stays.
\<close>

theorem ledgered_identifier_witness:
  "''abc123'' \<in> set (success_ids db_gel) \<and>
   rows_with ''abc123''
     (persisted (load_bronze env_ok (Some [video_gel\<lparr>title := ''Gel again''\<rparr>, video_banana]) db_gel))
     = [video_gel] \<and>
   raw_youtube_videos
     (persisted (load_bronze env_ok (Some [video_gel\<lparr>title := ''Gel again''\<rparr>, video_banana]) db_gel))
     = [video_gel, video_banana]"
proof -
  have h: "''abc123'' \<in> set (success_ids db_gel)"
    by (simp add: success_ids_def db_gel_def success_row_def)
  have r: "rows_with ''abc123'' db_gel = [video_gel]"
    by (simp add: rows_with_def db_gel_def video_gel_def)
  have p: "raw_youtube_videos
     (persisted (load_bronze env_ok (Some [video_gel\<lparr>title := ''Gel again''\<rparr>, video_banana]) db_gel))
     = [video_gel, video_banana]"
    by (simp add: load_eval)
  show ?thesis
    using h r p
      ledgered_identifier_never_reinserted [OF h, of env_ok
        "Some [video_gel\<lparr>title := ''Gel again''\<rparr>, video_banana]" "[]"]
    by simp
qed

text \<open>A title of 600 characters is stored as its first 500.\<close>

theorem load_bronze_truncates_witness:
  "fst (load_bronze env_ok (Some [video_long]) db_empty) = Inr 1 \<and>
   length (title video_long) = 600 \<and>
   raw_youtube_videos (persisted (load_bronze env_ok (Some [video_long]) db_empty)) =
     [video_long\<lparr>title := replicate 500 (CHR ''x'')\<rparr>] \<and>
   length (title (hd (raw_youtube_videos
     (persisted (load_bronze env_ok (Some [video_long]) db_empty))))) = 500"
proof -
  have f: "fst (load_bronze env_ok (Some [video_long]) db_empty) = Inr 1"
    by (simp add: load_eval)
  have l: "length (title video_long) = 600" by (simp add: video_long_def)
  have p: "raw_youtube_videos (persisted (load_bronze env_ok (Some [video_long]) db_empty)) =
     [video_long\<lparr>title := replicate 500 (CHR ''x'')\<rparr>]"
    by (simp add: load_eval)
  show ?thesis
    using f l p load_bronze_truncates [of env_ok "Some [video_long]" db_empty 1 video_long]
    by (simp add: batch_of_def)
qed

text \<open>One of two candidates is new: the loader returns 1; none is new: 0.\<close>

theorem load_bronze_count_witness:
  "fst (load_bronze env_ok (Some [video_gel, video_banana]) db_gel) = Inr 1 \<and>
   ledger_ids (persisted (load_bronze env_ok (Some [video_gel, video_banana]) db_gel)) =
     [''abc123'', ''xyz789''] \<and>
   fst (load_bronze env_ok (Some [video_gel]) db_gel) = Inr 0 \<and>
   fst (load_bronze env_ok None db_gel) = Inr 0"
proof -
  let ?run = "load_bronze env_ok (Some [video_gel, video_banana]) db_gel"
  have a: "fst ?run = Inr 1"
    by (simp add: load_eval)
  have b: "fst (load_bronze env_ok (Some [video_gel]) db_gel) = Inr 0"
    by (simp add: load_eval)
  have c: "fst (load_bronze env_ok None db_gel) = Inr 0"
    by (simp add: load_eval)
  have n: "ledger_ids db_gel @ map video_id
        (filter (\<lambda>v. video_id v \<notin> set (ledger_ids db_gel))
           (batch_of (Some [video_gel, video_banana]))) = [''abc123'', ''xyz789'']"
    by (simp add: ledger_ids_def db_gel_def success_row_def batch_of_def
          video_gel_def video_banana_def)
  have "ledger_ids (persisted ?run) =
      ledger_ids db_gel @ map video_id
        (filter (\<lambda>v. video_id v \<notin> set (ledger_ids db_gel))
           (batch_of (Some [video_gel, video_banana])))"
    using a load_bronze_returns_new_count [of env_ok "Some [video_gel, video_banana]" db_gel 1]
    by blast
  then have l: "ledger_ids (persisted ?run) = [''abc123'', ''xyz789'']"
    using n by (rule trans)
  show ?thesis using a b c l by blast
qed

text \<open>The watermark on the empty and on the loaded tables.\<close>

theorem read_watermark_witness:
  "read_watermark env_ok db_empty = Inr (1710000000 - 604800) \<and>
   read_watermark env_ok db_loaded = Inr 1709625600"
  using read_watermark_value [of env_ok db_empty] read_watermark_value [of env_ok db_loaded]
  by (simp add: env_ok_def db_empty_def db_loaded_def timestamp_example_def
        video_gel_def video_banana_def)

lemma candidate_of_untitled: "candidate_of ascii_lower year_2024 item_untitled = Inl (KeyError ''title'')"
  by (simp add: candidate_of_def item_untitled_def)

text \<open>Two of the five queries raise at the request, three are processed.\<close>

theorem extract_youtube_partial_failure_witness:
  "read_watermark env_ok db_gel = Inr 1709374500 \<and>
   \<not> build_raises env_ok \<and>
   list_all (\<lambda>q. query_fails env_ok 1709374500 q \<or> query_succeeds env_ok 1709374500 q)
     SEARCH_QUERIES \<and>
   filter (query_fails env_ok 1709374500) SEARCH_QUERIES =
     [''runner nutrition food'', ''ultramarathon fueling''] \<and>
   filter (query_succeeds env_ok 1709374500) SEARCH_QUERIES =
     [''marathon nutrition'', ''running diet'', ''what runners eat''] \<and>
   extract_youtube env_ok db_gel =
     Inr ([video_gel, video_banana], [''runner nutrition food'', ''ultramarathon fueling''])"
proof -
  have wm: "read_watermark env_ok db_gel = Inr 1709374500"
    by (simp add: read_watermark_def get_snowflake_connection_def execute_def
          fetch_watermark_def Let_def env_ok_def db_gel_def timestamp_example_def video_gel_def)
  have b: "\<not> build_raises env_ok" by (simp add: env_ok_def)
  have s: "search env_ok = search_example" "py_int env_ok = year_2024" "str_lower env_ok = ascii_lower"
    by (simp_all add: env_ok_def)
  have qs: "list_all (\<lambda>q. query_fails env_ok 1709374500 q \<or> query_succeeds env_ok 1709374500 q)
     SEARCH_QUERIES"
    by (simp add: SEARCH_QUERIES_def query_fails_def query_succeeds_def s search_example_def
          response_items_def candidate_of_gel candidate_of_banana candidate_of_shoes)
  have fl: "filter (query_fails env_ok 1709374500) SEARCH_QUERIES =
     [''runner nutrition food'', ''ultramarathon fueling'']"
    by (simp add: SEARCH_QUERIES_def query_fails_def s search_example_def)
  have sc: "filter (query_succeeds env_ok 1709374500) SEARCH_QUERIES =
     [''marathon nutrition'', ''running diet'', ''what runners eat'']"
    by (simp add: SEARCH_QUERIES_def query_succeeds_def s search_example_def
          response_items_def candidate_of_gel candidate_of_banana candidate_of_shoes)
  have items: "concat (map (query_items env_ok 1709374500)
                  [''marathon nutrition'', ''running diet'', ''what runners eat''])
               = [video_gel, video_banana, video_gel]"
    by (simp add: query_items_def s search_example_def
          response_items_def kept_of_def map_filter_simps
          candidate_of_gel candidate_of_banana candidate_of_shoes)
  have dd: "deduplicate [video_gel, video_banana, video_gel] = [video_gel, video_banana]"
    by (simp add: deduplicate_def video_gel_def video_banana_def)
  have all: "\<forall>q \<in> set SEARCH_QUERIES.
      query_fails env_ok 1709374500 q \<or> query_succeeds env_ok 1709374500 q"
    using qs by (simp add: list_all_iff)
  have "extract_youtube env_ok db_gel =
      Inr (deduplicate
             (concat (map (query_items env_ok 1709374500)
                (filter (query_succeeds env_ok 1709374500) SEARCH_QUERIES))),
           filter (query_fails env_ok 1709374500) SEARCH_QUERIES)"
    using extract_youtube_partial_failure [OF wm b] all by blast
  then have "extract_youtube env_ok db_gel =
     Inr ([video_gel, video_banana], [''runner nutrition food'', ''ultramarathon fueling''])"
    unfolding sc fl items dd .
  then show ?thesis using wm b qs fl sc by blast
qed

text \<open>
  C5 as stated fails: the pass for \<^verbatim>\<open>marathon nutrition\<close> raises at its second item and is
  logged as failed, the only successful query yields the banana video, and the result also
  holds the gel video that the failing query had appended before it raised.
\<close>

theorem extract_youtube_failing_query_items_kept:
  "query_raises env_malformed 1709374500 ''marathon nutrition'' \<and>
   filter (query_raises env_malformed 1709374500) SEARCH_QUERIES =
     [''runner nutrition food'', ''marathon nutrition'', ''ultramarathon fueling'',
      ''what runners eat''] \<and>
   deduplicate (concat (map (query_items env_malformed 1709374500)
      (filter (query_succeeds env_malformed 1709374500) SEARCH_QUERIES))) = [video_banana] \<and>
   extract_youtube env_malformed db_gel =
     Inr ([video_gel, video_banana],
          [''runner nutrition food'', ''marathon nutrition'', ''ultramarathon fueling'',
           ''what runners eat''])"
proof -
  have wm: "read_watermark env_malformed db_gel = Inr 1709374500"
    by (simp add: read_watermark_def get_snowflake_connection_def execute_def
          fetch_watermark_def Let_def env_malformed_def env_ok_def db_gel_def
          timestamp_example_def video_gel_def)
  have s: "search env_malformed = search_malformed" "py_int env_malformed = year_2024"
      "str_lower env_malformed = ascii_lower"
      "\<not> build_raises env_malformed"
    by (simp_all add: env_malformed_def env_ok_def)
  have r: "query_raises env_malformed 1709374500 ''marathon nutrition''"
    by (simp add: query_raises_def s search_malformed_def response_items_def item_ok_def
          candidate_of_gel candidate_of_untitled)
  have rs: "filter (query_raises env_malformed 1709374500) SEARCH_QUERIES =
     [''runner nutrition food'', ''marathon nutrition'', ''ultramarathon fueling'',
      ''what runners eat'']"
    by (simp add: SEARCH_QUERIES_def query_raises_def s search_malformed_def response_items_def
          item_ok_def candidate_of_gel candidate_of_untitled candidate_of_banana)
  have sc: "filter (query_succeeds env_malformed 1709374500) SEARCH_QUERIES = [''running diet'']"
    by (simp add: SEARCH_QUERIES_def query_succeeds_def s search_malformed_def response_items_def
          candidate_of_gel candidate_of_untitled candidate_of_banana)
  have it: "query_items env_malformed 1709374500 ''running diet'' = [video_banana]"
    by (simp add: query_items_def s search_malformed_def response_items_def kept_of_def
          map_filter_simps candidate_of_banana)
  have dd: "deduplicate [video_banana] = [video_banana]"
    by (simp add: deduplicate_def)
  have ex: "extract_youtube env_malformed db_gel =
     Inr ([video_gel, video_banana],
          [''runner nutrition food'', ''marathon nutrition'', ''ultramarathon fueling'',
           ''what runners eat''])"
    by (simp add: extract_youtube_def wm s SEARCH_QUERIES_def fetch_query_def
          search_malformed_def candidate_of_gel candidate_of_untitled candidate_of_banana
          deduplicate_def video_gel_def video_banana_def)
  show ?thesis using r rs ex by (simp add: sc it dd)
qed

end
